theory Spec2Isabelle
  imports Main
begin

section \<open>Go library functions called by the where-clause compiler\<close>

text \<open>
  Go strings are byte sequences; \<open>string\<close> (a list of 8-bit characters) is the same thing.
  The functions below follow the Go standard library (packages \<open>strings\<close> and
  \<open>strconv\<close>) for the arguments this program passes: every separator is one of the
  non-empty constants \<open>&\<close>, \<open>|\<close>, \<open>=\<close> and \<open>__\<close>.
\<close>

subsection \<open>Package strings\<close>

definition HasPrefix :: "string \<Rightarrow> string \<Rightarrow> bool" where
  "HasPrefix s pre = (length pre \<le> length s \<and> take (length pre) s = pre)"

definition TrimPrefix :: "string \<Rightarrow> string \<Rightarrow> string" where
  "TrimPrefix s pre = (if HasPrefix s pre then drop (length pre) s else s)"

text \<open>\<open>Index s substr\<close> is the position of the first occurrence of \<open>substr\<close> in \<open>s\<close>;
  Go returns \<open>-1\<close> where the model returns \<open>None\<close>.\<close>

fun Index :: "string \<Rightarrow> string \<Rightarrow> nat option" where
  "Index [] substr = (if substr = [] then Some 0 else None)"
| "Index (c # cs) substr =
     (if HasPrefix (c # cs) substr then Some 0 else map_option Suc (Index cs substr))"

text \<open>\<open>Count\<close> counts the non-overlapping occurrences of a non-empty \<open>substr\<close>: the loop
  \<^verbatim>\<open>for { i := Index(s, substr); if i == -1 { return n }; n++; s = s[i+len(substr):] }\<close>.
  For the empty \<open>substr\<close> Go returns the number of UTF-8 sequences plus one; the program
  never asks for it, and the model counts bytes there.\<close>

function Count :: "string \<Rightarrow> string \<Rightarrow> nat" where
  "Count s substr =
     (if substr = [] then length s + 1
      else case Index s substr of
             None \<Rightarrow> 0
           | Some i \<Rightarrow> Suc (Count (drop (i + length substr) s) substr))"
  by pat_completeness auto
termination
proof (relation "measure (\<lambda>(s, substr). length s)")
  show "wf (measure (\<lambda>(s, substr). length s))" by simp
next
  fix s substr :: string and i
  assume ne: "substr \<noteq> []" and ix: "Index s substr = Some i"
  have bound: "Index t substr = Some k \<Longrightarrow> k + length substr \<le> length t" for t k
  proof (induction t arbitrary: k)
    case Nil
    then show ?case by (simp split: if_splits)
  next
    case (Cons c cs)
    show ?case
    proof (cases "HasPrefix (c # cs) substr")
      case True
      with Cons.prems show ?thesis by (simp add: HasPrefix_def)
    next
      case False
      with Cons.prems obtain j where "Index cs substr = Some j" "k = Suc j" by auto
      with Cons.IH show ?thesis by fastforce
    qed
  qed
  from bound [OF ix] ne have "0 < length s" by (cases substr) auto
  moreover from ne have "0 < i + length substr" by simp
  ultimately show "((drop (i + length substr) s, substr), (s, substr))
      \<in> measure (\<lambda>(s, substr). length s)" by simp
qed

declare Count.simps [simp del]

text \<open>\<open>genSplit s sep n\<close> is the loop of Go's \<open>genSplit\<close> with \<open>sepSave = 0\<close>, where \<open>n\<close> is
  the number of cuts still allowed (\<^verbatim>\<open>for i < n\<close> after \<^verbatim>\<open>n--\<close>); it stops early when the
  separator no longer occurs.\<close>

fun genSplit :: "string \<Rightarrow> string \<Rightarrow> nat \<Rightarrow> string list" where
  "genSplit s sep 0 = [s]"
| "genSplit s sep (Suc n) =
     (case Index s sep of
        None \<Rightarrow> [s]
      | Some m \<Rightarrow> take m s # genSplit (drop (m + length sep) s) sep n)"

text \<open>\<open>SplitN s sep n\<close> for \<open>n \<ge> 0\<close> and \<open>Split s sep\<close> (which is \<open>SplitN\<close> with \<open>n = -1\<close>,
  that is \<open>n = Count s sep + 1\<close>), both for a non-empty separator. Go caps \<open>n\<close> at
  \<open>len s + 1\<close>.\<close>

definition SplitN :: "string \<Rightarrow> string \<Rightarrow> nat \<Rightarrow> string list" where
  "SplitN s sep n = (if n = 0 then [] else genSplit s sep (min n (length s + 1) - 1))"

definition Split :: "string \<Rightarrow> string \<Rightarrow> string list" where
  "Split s sep = genSplit s sep (min (Count s sep + 1) (length s + 1) - 1)"

fun Join :: "string list \<Rightarrow> string \<Rightarrow> string" where
  "Join [] sep = []"
| "Join [e] sep = e"
| "Join (e # es) sep = e @ sep @ Join es sep"

subsection \<open>Package strconv\<close>

datatype error = ErrSyntax | ErrRange | NilMapAssignment

text \<open>\<open>Atoi\<close> on a platform whose \<open>int\<close> has 64 bits: an optional sign, then a non-empty run
  of decimal digits, read left to right into an unsigned 64-bit accumulator (\<open>ParseUint\<close>);
  the signed result must fit 64 bits (\<open>ParseInt\<close>). Go's fast path for short strings
  computes the same results.\<close>

definition maxUint64 :: nat where
  "maxUint64 = 18446744073709551615"

definition digit :: "char \<Rightarrow> nat option" where
  "digit c = (let b = (of_char c :: nat) in if 48 \<le> b \<and> b \<le> 57 then Some (b - 48) else None)"

fun ParseUint_loop :: "nat \<Rightarrow> string \<Rightarrow> error + nat" where
  "ParseUint_loop n [] = Inr n"
| "ParseUint_loop n (c # cs) =
     (case digit c of
        None \<Rightarrow> Inl ErrSyntax
      | Some d \<Rightarrow> if n * 10 + d > maxUint64 then Inl ErrRange else ParseUint_loop (n * 10 + d) cs)"

definition ParseUint :: "string \<Rightarrow> error + nat" where
  "ParseUint s = (if s = [] then Inl ErrSyntax else ParseUint_loop 0 s)"

definition ParseInt :: "string \<Rightarrow> error + int" where
  "ParseInt s =
     (if s = [] then Inl ErrSyntax
      else let neg = (hd s = CHR ''-'');
               s1 = (if hd s = CHR ''+'' \<or> hd s = CHR ''-'' then tl s else s);
               cutoff = (2 :: nat) ^ 63
           in case ParseUint s1 of
                Inl ErrSyntax \<Rightarrow> Inl ErrSyntax
              | Inl _ \<Rightarrow> Inl ErrRange
              | Inr un \<Rightarrow>
                  if \<not> neg \<and> un \<ge> cutoff then Inl ErrRange
                  else if neg \<and> un > cutoff then Inl ErrRange
                  else Inr (if neg then - int un else int un))"

definition Atoi :: "string \<Rightarrow> error + int" where
  "Atoi s = ParseInt s"


section \<open>The where-clause descriptor\<close>

text \<open>
  A value of Go's \<open>interface{}\<close> as this file stores it in \<open>Args\<close>: the compiler appends
  strings, \<open>LengthGreaterThan\<close> appends an \<open>int\<close>; callers of the builder may pass
  either.
\<close>

datatype iface = IString string | IInt int

text \<open>
  The struct \<open>WhereClause\<close>. A Go map may be \<open>nil\<close>: \<open>Aggregates\<close> is \<open>None\<close> for the nil
  map and \<open>Some m\<close> for an allocated one. A nil slice and an empty slice behave alike under
  \<open>append\<close>, \<open>len\<close> and \<open>range\<close>, the only operations of this file, and both are \<open>[]\<close>.
  The \<open>int\<close> fields hold 64-bit values; the only arithmetic on them is in \<open>Atoi\<close>, which
  checks the range.
\<close>

record WhereClause =
  Query :: string
  Args :: "iface list"
  Preload :: "string list"
  Limit :: int
  Offset :: int
  OrderByASC :: string
  OrderByDESC :: string
  Page :: int
  PageSize :: int
  Aggregates :: "(string \<rightharpoonup> string list) option"

text \<open>The zero value \<^verbatim>\<open>WhereClause{}\<close>.\<close>

definition zeroWhereClause :: WhereClause where
  "zeroWhereClause =
     \<lparr>Query = [], Args = [], Preload = [], Limit = 0, Offset = 0, OrderByASC = [],
      OrderByDESC = [], Page = 0, PageSize = 0, Aggregates = None\<rparr>"

subsection \<open>The builder\<close>

text \<open>The methods mutate the receiver and return it; the model returns the new value.\<close>

definition AddPreload :: "WhereClause \<Rightarrow> string \<Rightarrow> WhereClause" where
  "AddPreload w preload = w\<lparr>Preload := Preload w @ [preload]\<rparr>"

definition NewWhereClause :: WhereClause where
  "NewWhereClause = zeroWhereClause"

definition NewWhere :: "string \<Rightarrow> iface list \<Rightarrow> int \<Rightarrow> int \<Rightarrow> WhereClause" where
  "NewWhere query args limit offset =
     zeroWhereClause\<lparr>Query := query, Args := args, Limit := limit, Offset := offset\<rparr>"

definition Where :: "WhereClause \<Rightarrow> string \<Rightarrow> iface list \<Rightarrow> WhereClause" where
  "Where w query args = w\<lparr>Query := query, Args := args\<rparr>"

definition AddAnd :: "WhereClause \<Rightarrow> WhereClause" where
  "AddAnd w = (if Query w \<noteq> [] then w\<lparr>Query := Query w @ '' AND ''\<rparr> else w)"

definition AddOr :: "WhereClause \<Rightarrow> WhereClause" where
  "AddOr w = (if Query w \<noteq> [] then w\<lparr>Query := Query w @ '' OR ''\<rparr> else w)"

definition And :: "WhereClause \<Rightarrow> string \<Rightarrow> iface list \<Rightarrow> WhereClause" where
  "And w query args = w\<lparr>Query := Query w @ '' AND '' @ query, Args := Args w @ args\<rparr>"

definition Or :: "WhereClause \<Rightarrow> string \<Rightarrow> iface list \<Rightarrow> WhereClause" where
  "Or w query args = w\<lparr>Query := Query w @ '' OR '' @ query, Args := Args w @ args\<rparr>"

definition LimitClause :: "WhereClause \<Rightarrow> int \<Rightarrow> WhereClause" where
  "LimitClause w limit = w\<lparr>Limit := limit\<rparr>"

definition OffsetClause :: "WhereClause \<Rightarrow> int \<Rightarrow> WhereClause" where
  "OffsetClause w offset = w\<lparr>Offset := offset\<rparr>"

text \<open>The comparison helpers append \<^verbatim>\<open>fmt.Sprintf("%s OP ?", field)\<close> to \<open>Query\<close>, with no
  connector, and their value to \<open>Args\<close>.\<close>

definition Like :: "WhereClause \<Rightarrow> string \<Rightarrow> string \<Rightarrow> WhereClause" where
  "Like w field val = w\<lparr>Query := Query w @ field @ '' LIKE ?'', Args := Args w @ [IString val]\<rparr>"

definition Is :: "WhereClause \<Rightarrow> string \<Rightarrow> iface \<Rightarrow> WhereClause" where
  "Is w field val = w\<lparr>Query := Query w @ field @ '' IS ?'', Args := Args w @ [val]\<rparr>"

definition IsNot :: "WhereClause \<Rightarrow> string \<Rightarrow> iface \<Rightarrow> WhereClause" where
  "IsNot w field val = w\<lparr>Query := Query w @ field @ '' IS NOT ?'', Args := Args w @ [val]\<rparr>"

definition GreaterThan :: "WhereClause \<Rightarrow> string \<Rightarrow> iface \<Rightarrow> WhereClause" where
  "GreaterThan w field val = w\<lparr>Query := Query w @ field @ '' > ?'', Args := Args w @ [val]\<rparr>"

definition LessThanOrEqual :: "WhereClause \<Rightarrow> string \<Rightarrow> iface \<Rightarrow> WhereClause" where
  "LessThanOrEqual w field val =
     w\<lparr>Query := Query w @ field @ '' <= ?'', Args := Args w @ [val]\<rparr>"

definition GreaterThanOrEqual :: "WhereClause \<Rightarrow> string \<Rightarrow> iface \<Rightarrow> WhereClause" where
  "GreaterThanOrEqual w field val =
     w\<lparr>Query := Query w @ field @ '' >= ?'', Args := Args w @ [val]\<rparr>"

definition NotEqual :: "WhereClause \<Rightarrow> string \<Rightarrow> iface \<Rightarrow> WhereClause" where
  "NotEqual w field val = w\<lparr>Query := Query w @ field @ '' != ?'', Args := Args w @ [val]\<rparr>"

definition Equal :: "WhereClause \<Rightarrow> string \<Rightarrow> iface \<Rightarrow> WhereClause" where
  "Equal w field val = w\<lparr>Query := Query w @ field @ '' = ?'', Args := Args w @ [val]\<rparr>"

definition DateRange :: "WhereClause \<Rightarrow> string \<Rightarrow> iface \<Rightarrow> iface \<Rightarrow> WhereClause" where
  "DateRange w field startDate endDate =
     w\<lparr>Query := Query w @ field @ '' >= ? AND '' @ field @ '' <= ?'',
       Args := Args w @ [startDate, endDate]\<rparr>"

definition LengthGreaterThan :: "WhereClause \<Rightarrow> string \<Rightarrow> int \<Rightarrow> WhereClause" where
  "LengthGreaterThan w field len =
     w\<lparr>Query := Query w @ ''LENGTH('' @ field @ '') > ?'', Args := Args w @ [IInt len]\<rparr>"

subsection \<open>The compiler\<close>

text \<open>\<open>setPaginationField\<close> returns the error of \<open>Atoi\<close>, or stores the number in the field
  that \<open>key\<close> names; the model returns the updated descriptor in place of \<open>nil\<close>.\<close>

definition setPaginationField :: "WhereClause \<Rightarrow> string \<Rightarrow> string \<Rightarrow> error + WhereClause" where
  "setPaginationField wc key val =
     (case Atoi val of
        Inl err \<Rightarrow> Inl err
      | Inr v \<Rightarrow>
          Inr (if key = ''limit'' then wc\<lparr>Limit := v\<rparr>
               else if key = ''offset'' then wc\<lparr>Offset := v\<rparr>
               else if key = ''page'' then wc\<lparr>Page := v\<rparr>
               else if key = ''pageSize'' then wc\<lparr>PageSize := v\<rparr>
               else wc))"

text \<open>\<open>processCondition\<close> returns the fragment, its arguments and an error, which is always
  \<open>nil\<close> (\<open>None\<close>).\<close>

definition processCondition :: "string \<Rightarrow> string \<times> iface list \<times> error option" where
  "processCondition condition =
     (case SplitN condition ''='' 2 of
        [key, val] \<Rightarrow>
          (let fieldParts = SplitN key ''__'' 2;
               field = hd fieldParts;
               operator =
                 (if length fieldParts = 2 then
                    (let suffix = fieldParts ! 1 in
                     if suffix = ''gt'' then ''>''
                     else if suffix = ''gte'' then ''>=''
                     else if suffix = ''lt'' then ''<''
                     else if suffix = ''lte'' then ''<=''
                     else if suffix = ''ne'' then ''!=''
                     else if suffix = ''not'' then ''NOT''
                     else ''='')
                  else ''='')
           in (field @ '' '' @ operator @ '' ?'', [IString val], None))
      | _ \<Rightarrow> ([], [], None))"

text \<open>The loop over \<open>orConditions\<close>; its state is \<open>orConditionParts\<close> and the descriptor,
  whose \<open>Args\<close> grow.\<close>

fun orConditions_loop ::
  "string list \<Rightarrow> WhereClause \<Rightarrow> string list \<Rightarrow> error + (string list \<times> WhereClause)" where
  "orConditions_loop orConditionParts w [] = Inr (orConditionParts, w)"
| "orConditions_loop orConditionParts w (orCond # rest) =
     (case processCondition orCond of
        (cond, args, Some err) \<Rightarrow> Inl err
      | (cond, args, None) \<Rightarrow>
          if cond \<noteq> [] then
            orConditions_loop (orConditionParts @ [cond]) (w\<lparr>Args := Args w @ args\<rparr>) rest
          else orConditions_loop orConditionParts w rest)"

text \<open>The last part of the loop body of \<open>BuildWhereClause\<close> (from \<^verbatim>\<open>orConditions :=\<close> on):
  the clause as a group of alternatives.\<close>

definition orGroup :: "WhereClause \<Rightarrow> string \<Rightarrow> error + WhereClause" where
  "orGroup w andCond =
     (case orConditions_loop [] w (Split andCond ''|'') of
        Inl err \<Rightarrow> Inl err
      | Inr (orConditionParts, w1) \<Rightarrow>
          if length orConditionParts > 0 then
            (let groupQuery = ''('' @ Join orConditionParts '' OR '' @ '')'';
                 w2 = (if Query w1 \<noteq> [] then w1\<lparr>Query := Query w1 @ '' AND ''\<rparr> else w1)
             in Inr (w2\<lparr>Query := Query w2 @ groupQuery\<rparr>))
          else Inr w1)"

text \<open>The body of the loop over \<open>andConditions\<close>: \<open>Inr\<close> is the descriptor after the clause
  (after \<^verbatim>\<open>continue\<close> or the end of the body), \<open>Inl\<close> the error that \<open>BuildWhereClause\<close>
  returns at once. An assignment to an entry of a nil map panics.\<close>

definition andCond_body :: "WhereClause \<Rightarrow> string \<Rightarrow> error + WhereClause" where
  "andCond_body w andCond =
     (if HasPrefix andCond ''agg__'' \<and> length (SplitN andCond ''='' 2) = 2 then
        (let aggregateParts = SplitN andCond ''='' 2;
             aggFunction = TrimPrefix (aggregateParts ! 0) ''agg__'';
             fields = aggregateParts ! 1
         in case Aggregates w of
              None \<Rightarrow> Inl NilMapAssignment
            | Some m \<Rightarrow> Inr (w\<lparr>Aggregates := Some (m(aggFunction \<mapsto> Split fields ''|''))\<rparr>))
      else if andCond = [] then Inr w
      else if HasPrefix andCond ''useData'' then Inr w
      else if HasPrefix andCond ''useCache'' then Inr w
      else if HasPrefix andCond ''with_'' then
        (let preloadValues = TrimPrefix andCond ''with_''
         in Inr (foldl (\<lambda>w1 preloadDirective. w1\<lparr>Preload := Preload w1 @ [preloadDirective]\<rparr>)
                   w (Split preloadValues ''|'')))
      else
        (case SplitN andCond ''='' 2 of
           [key, val] \<Rightarrow>
             if key = ''orderByASC'' then Inr (w\<lparr>OrderByASC := val\<rparr>)
             else if key = ''orderByDESC'' then Inr (w\<lparr>OrderByDESC := val\<rparr>)
             else if key = ''limit'' \<or> key = ''offset'' \<or> key = ''page'' \<or> key = ''pageSize''
               then setPaginationField w key val
             else orGroup w andCond
         | _ \<Rightarrow> orGroup w andCond))"

fun andConditions_loop :: "WhereClause \<Rightarrow> string list \<Rightarrow> error + WhereClause" where
  "andConditions_loop w [] = Inr w"
| "andConditions_loop w (andCond # rest) =
     (case andCond_body w andCond of
        Inl err \<Rightarrow> Inl err
      | Inr w1 \<Rightarrow> andConditions_loop w1 rest)"

definition BuildWhereClause :: "string \<Rightarrow> error + WhereClause" where
  "BuildWhereClause queryString =
     andConditions_loop (zeroWhereClause\<lparr>Aggregates := Some Map.empty\<rparr>) (Split queryString ''&'')"


section \<open>Properties of the library functions\<close>

lemma Index_cut: "Index s sep = Some m \<Longrightarrow> s = take m s @ sep @ drop (m + length sep) s"
proof (induction s arbitrary: m)
  case Nil
  then show ?case by (simp split: if_splits)
next
  case (Cons c cs)
  show ?case
  proof (cases "HasPrefix (c # cs) sep")
    case True
    with Cons.prems have "m = 0" by simp
    moreover from True have "take (length sep) (c # cs) = sep" by (simp add: HasPrefix_def)
    then have "c # cs = sep @ drop (length sep) (c # cs)"
      by (metis append_take_drop_id)
    ultimately show ?thesis by simp
  next
    case False
    with Cons.prems obtain j where j: "Index cs sep = Some j" "m = Suc j" by auto
    from Cons.IH [OF j(1)] j(2) show ?thesis by simp
  qed
qed


lemma SplitN_2: "sep \<noteq> [] \<Longrightarrow>
  SplitN s sep 2 = (case Index s sep of None \<Rightarrow> [s] | Some m \<Rightarrow> [take m s, drop (m + length sep) s])"
proof (cases s)
  case Nil
  assume "sep \<noteq> []"
  with Nil show ?thesis by (simp add: SplitN_def)
next
  case (Cons c cs)
  then have "min 2 (length s + 1) - 1 = Suc 0" by simp
  then show ?thesis by (simp add: SplitN_def split: option.splits)
qed

lemma SplitN_2_pair: "sep \<noteq> [] \<Longrightarrow> SplitN s sep 2 = [k, v] \<Longrightarrow> s = k @ sep @ v"
  by (auto simp: SplitN_2 split: option.splits dest: Index_cut)

lemma SplitN_2_length: "sep \<noteq> [] \<Longrightarrow> length (SplitN s sep 2) = 2 \<longleftrightarrow> (\<exists>k v. SplitN s sep 2 = [k, v])"
  by (auto simp: SplitN_2 split: option.splits)


lemma SplitN_2_shape: "sep \<noteq> [] \<Longrightarrow> (\<exists>k v. SplitN s sep 2 = [k, v]) \<or> SplitN s sep 2 = [s]"
  by (auto simp: SplitN_2 split: option.splits)


section \<open>Properties of the loops of the compiler\<close>

lemma processCondition_no_error: "snd (snd (processCondition p)) = None"
  by (simp add: processCondition_def Let_def split: list.splits)

lemma orConditions_loop_closed:
  "orConditions_loop ps w conds =
     Inr (ps @ map (\<lambda>p. fst (processCondition p)) (filter (\<lambda>p. fst (processCondition p) \<noteq> []) conds),
          w\<lparr>Args := Args w @ concat (map (\<lambda>p. fst (snd (processCondition p)))
                                  (filter (\<lambda>p. fst (processCondition p) \<noteq> []) conds))\<rparr>)"
proof (induction conds arbitrary: ps w)
  case Nil
  show ?case by simp
next
  case (Cons p conds)
  obtain cond args err where pc: "processCondition p = (cond, args, err)"
    by (cases "processCondition p") auto
  with processCondition_no_error [of p] have err: "err = None" by simp
  show ?case
    by (simp add: pc err Cons.IH)
qed

lemma foldl_Preload:
  "foldl (\<lambda>w1 d. w1\<lparr>Preload := Preload w1 @ [d]\<rparr>) w ds = w\<lparr>Preload := Preload w @ ds\<rparr>"
  by (induction ds arbitrary: w) simp_all

lemma orGroup_closed:
  "orGroup w c =
     (let conds = filter (\<lambda>p. fst (processCondition p) \<noteq> []) (Split c ''|'');
          parts = map (\<lambda>p. fst (processCondition p)) conds;
          args = concat (map (\<lambda>p. fst (snd (processCondition p))) conds)
      in if parts = [] then Inr w
         else Inr (w\<lparr>Query := (if Query w \<noteq> [] then Query w @ '' AND '' else [])
                             @ ''('' @ Join parts '' OR '' @ '')'',
                    Args := Args w @ args\<rparr>))"
  by (simp add: orGroup_def orConditions_loop_closed Let_def)

lemma orGroup_fields:
  "orGroup w c = Inr w1 \<Longrightarrow>
     Preload w1 = Preload w \<and> Limit w1 = Limit w \<and> Offset w1 = Offset w \<and>
     OrderByASC w1 = OrderByASC w \<and> OrderByDESC w1 = OrderByDESC w \<and>
     Page w1 = Page w \<and> PageSize w1 = PageSize w \<and> Aggregates w1 = Aggregates w"
  by (auto simp: orGroup_closed Let_def split: if_splits)

lemma orGroup_no_error: "orGroup w c \<noteq> Inl e"
  by (simp add: orGroup_closed Let_def)

lemma Atoi_range: "Atoi s = Inr n \<Longrightarrow> - (2 ^ 63) \<le> n \<and> n < 2 ^ 63"
  by (auto simp: Atoi_def ParseInt_def Let_def split: if_splits sum.splits error.splits)

lemma key_clause_prefixes:
  assumes "SplitN c ''='' 2 = [k, v]"
    and "k = ''orderByASC'' \<or> k = ''orderByDESC'' \<or> k = ''limit'' \<or> k = ''offset'' \<or> k = ''page'' \<or> k = ''pageSize''"
  shows "\<not> HasPrefix c ''agg__'' \<and> c \<noteq> [] \<and> \<not> HasPrefix c ''useData'' \<and>
         \<not> HasPrefix c ''useCache'' \<and> \<not> HasPrefix c ''with_''"
proof -
  from assms(1) have "c = k @ ''='' @ v" by (rule SplitN_2_pair [rotated]) simp
  with assms(2) show ?thesis by (auto simp: HasPrefix_def)
qed

lemma andCond_body_error_iff:
  assumes "Aggregates w \<noteq> None"
  shows "andCond_body w c = Inl e \<longleftrightarrow>
           (\<exists>k v. SplitN c ''='' 2 = [k, v] \<and>
                  (k = ''limit'' \<or> k = ''offset'' \<or> k = ''page'' \<or> k = ''pageSize'') \<and>
                  Atoi v = Inl e)"
proof
  assume "\<exists>k v. SplitN c ''='' 2 = [k, v] \<and>
                  (k = ''limit'' \<or> k = ''offset'' \<or> k = ''page'' \<or> k = ''pageSize'') \<and>
                  Atoi v = Inl e"
  then obtain k v where kv: "SplitN c ''='' 2 = [k, v]"
    and k: "k = ''limit'' \<or> k = ''offset'' \<or> k = ''page'' \<or> k = ''pageSize''"
    and a: "Atoi v = Inl e" by blast
  from key_clause_prefixes [OF kv] k
  have "\<not> HasPrefix c ''agg__'' \<and> c \<noteq> [] \<and> \<not> HasPrefix c ''useData'' \<and>
         \<not> HasPrefix c ''useCache'' \<and> \<not> HasPrefix c ''with_''" by blast
  with kv k a show "andCond_body w c = Inl e"
    by (auto simp: andCond_body_def setPaginationField_def)
next
  assume err: "andCond_body w c = Inl e"
  from SplitN_2_shape [of "''=''" c]
  consider k v where "SplitN c ''='' 2 = [k, v]" | "SplitN c ''='' 2 = [c]" by auto
  then show "\<exists>k v. SplitN c ''='' 2 = [k, v] \<and>
                  (k = ''limit'' \<or> k = ''offset'' \<or> k = ''page'' \<or> k = ''pageSize'') \<and>
                  Atoi v = Inl e"
  proof cases
    case 1
    with err assms show ?thesis
      by (auto simp: andCond_body_def setPaginationField_def foldl_Preload orGroup_no_error Let_def
          split: if_splits sum.splits)
  next
    case 2
    with err assms show ?thesis
      by (auto simp: andCond_body_def foldl_Preload orGroup_no_error Let_def split: if_splits)
  qed
qed


lemma andCond_body_Aggregates_keep:
  assumes "andCond_body w c = Inr w1"
    and "\<not> (HasPrefix c ''agg__'' \<and> length (SplitN c ''='' 2) = 2)"
  shows "Aggregates w1 = Aggregates w"
proof -
  from SplitN_2_shape [of "''=''" c]
  consider k v where "SplitN c ''='' 2 = [k, v]" | "SplitN c ''='' 2 = [c]" by auto
  then show ?thesis
  proof cases
    case 1
    with assms show ?thesis
      by (auto simp: andCond_body_def setPaginationField_def foldl_Preload Let_def
          dest: orGroup_fields split: if_splits sum.splits)
  next
    case 2
    with assms show ?thesis
      by (auto simp: andCond_body_def foldl_Preload Let_def dest: orGroup_fields split: if_splits)
  qed
qed

lemma andCond_body_Aggregates_Some:
  assumes "andCond_body w c = Inr w1" and "Aggregates w \<noteq> None"
  shows "Aggregates w1 \<noteq> None"
proof (cases "HasPrefix c ''agg__'' \<and> length (SplitN c ''='' 2) = 2")
  case True
  with assms show ?thesis
    by (auto simp: andCond_body_def Let_def split: option.splits)
next
  case False
  with assms andCond_body_Aggregates_keep [OF assms(1)] show ?thesis by simp
qed

lemma andConditions_loop_error_iff:
  assumes "Aggregates w \<noteq> None"
  shows "andConditions_loop w cs = Inl e \<longrightarrow>
           (\<exists>c\<in>set cs. \<exists>k v. SplitN c ''='' 2 = [k, v] \<and>
              (k = ''limit'' \<or> k = ''offset'' \<or> k = ''page'' \<or> k = ''pageSize'') \<and>
              Atoi v = Inl e)"
    and "(\<exists>c\<in>set cs. \<exists>k v. SplitN c ''='' 2 = [k, v] \<and>
              (k = ''limit'' \<or> k = ''offset'' \<or> k = ''page'' \<or> k = ''pageSize'') \<and>
              (\<exists>e. Atoi v = Inl e)) \<longrightarrow> (\<exists>e. andConditions_loop w cs = Inl e)"
  using assms
proof (induction cs arbitrary: w)
  case Nil
  { case 1 show ?case by simp }
  { case 2 show ?case by simp }
next
  case (Cons c cs)
  { case 1
    show ?case
    proof (cases "andCond_body w c")
      case (Inl e')
      with andCond_body_error_iff [OF 1, of c e'] show ?thesis by auto
    next
      case (Inr w1)
      with 1 have "Aggregates w1 \<noteq> None" by (simp add: andCond_body_Aggregates_Some)
      from Cons.IH(1) [OF this] Inr show ?thesis by auto
    qed }
  { case 2
    show ?case
    proof (cases "andCond_body w c")
      case (Inl e')
      then show ?thesis by simp
    next
      case (Inr w1)
      with 2 have a: "Aggregates w1 \<noteq> None" by (simp add: andCond_body_Aggregates_Some)
      from Inr andCond_body_error_iff [OF 2, of c] have
        "\<not> (\<exists>k v. SplitN c ''='' 2 = [k, v] \<and>
              (k = ''limit'' \<or> k = ''offset'' \<or> k = ''page'' \<or> k = ''pageSize'') \<and>
              (\<exists>e. Atoi v = Inl e))" by auto
      with Cons.IH(2) [OF a] Inr show ?thesis by auto
    qed }
qed

lemma initial_Aggregates: "Aggregates (zeroWhereClause\<lparr>Aggregates := Some Map.empty\<rparr>) \<noteq> None"
  by simp

lemma Atoi_no_panic: "Atoi v \<noteq> Inl NilMapAssignment"
  by (auto simp: Atoi_def ParseInt_def Let_def split: if_splits sum.splits error.splits)

lemma andConditions_loop_Aggregates_Some:
  "andConditions_loop w cs = Inr w1 \<Longrightarrow> Aggregates w \<noteq> None \<Longrightarrow> Aggregates w1 \<noteq> None"
proof (induction cs arbitrary: w)
  case Nil
  then show ?case by simp
next
  case (Cons c cs)
  show ?case
  proof (cases "andCond_body w c")
    case (Inl e)
    with Cons.prems show ?thesis by simp
  next
    case (Inr w2)
    with Cons.prems have run: "andConditions_loop w2 cs = Inr w1" by simp
    from andCond_body_Aggregates_Some [OF Inr Cons.prems(2)]
    have "Aggregates w2 \<noteq> None" .
    with run show ?thesis by (rule Cons.IH)
  qed
qed

lemma andConditions_loop_Aggregates_keep:
  "andConditions_loop w cs = Inr w1 \<Longrightarrow>
   \<forall>c\<in>set cs. \<not> (HasPrefix c ''agg__'' \<and> length (SplitN c ''='' 2) = 2) \<Longrightarrow>
   Aggregates w1 = Aggregates w"
proof (induction cs arbitrary: w)
  case Nil
  then show ?case by simp
next
  case (Cons c cs)
  show ?case
  proof (cases "andCond_body w c")
    case (Inl e)
    with Cons.prems show ?thesis by simp
  next
    case (Inr w2)
    with Cons.prems have "andConditions_loop w2 cs = Inr w1" by simp
    from Cons.IH [OF this] Cons.prems(2) have "Aggregates w1 = Aggregates w2" by simp
    moreover from andCond_body_Aggregates_keep [OF Inr] Cons.prems(2)
    have "Aggregates w2 = Aggregates w" by simp
    ultimately show ?thesis by simp
  qed
qed

lemma andCond_body_pagination:
  assumes "andCond_body w c = Inr w1"
  shows "(Limit w1 = Limit w \<or> (\<exists>v. SplitN c ''='' 2 = [''limit'', v] \<and> Atoi v = Inr (Limit w1))) \<and>
         (Offset w1 = Offset w \<or> (\<exists>v. SplitN c ''='' 2 = [''offset'', v] \<and> Atoi v = Inr (Offset w1))) \<and>
         (Page w1 = Page w \<or> (\<exists>v. SplitN c ''='' 2 = [''page'', v] \<and> Atoi v = Inr (Page w1))) \<and>
         (PageSize w1 = PageSize w \<or>
            (\<exists>v. SplitN c ''='' 2 = [''pageSize'', v] \<and> Atoi v = Inr (PageSize w1)))"
proof -
  from SplitN_2_shape [of "''=''" c]
  consider k v where "SplitN c ''='' 2 = [k, v]" | "SplitN c ''='' 2 = [c]" by auto
  then show ?thesis
  proof cases
    case 1
    with assms show ?thesis
      by (auto simp: andCond_body_def setPaginationField_def foldl_Preload Let_def
          dest: orGroup_fields split: if_splits sum.splits option.splits)
  next
    case 2
    with assms show ?thesis
      by (auto simp: andCond_body_def foldl_Preload Let_def
          dest: orGroup_fields split: if_splits option.splits)
  qed
qed


lemma andConditions_loop_field:
  fixes f :: "WhereClause \<Rightarrow> int"
  assumes step: "\<And>w c w1. andCond_body w c = Inr w1 \<Longrightarrow>
      f w1 = f w \<or> (\<exists>v. SplitN c ''='' 2 = [key, v] \<and> Atoi v = Inr (f w1))"
  shows "andConditions_loop w cs = Inr w1 \<Longrightarrow>
      f w1 = f w \<or> (\<exists>c\<in>set cs. \<exists>v. SplitN c ''='' 2 = [key, v] \<and> Atoi v = Inr (f w1))"
proof (induction cs arbitrary: w)
  case Nil
  then show ?case by simp
next
  case (Cons c cs)
  show ?case
  proof (cases "andCond_body w c")
    case (Inl e)
    with Cons.prems show ?thesis by simp
  next
    case (Inr w2)
    with Cons.prems have "andConditions_loop w2 cs = Inr w1" by simp
    from Cons.IH [OF this]
    have rest: "f w1 = f w2 \<or>
        (\<exists>c\<in>set cs. \<exists>v. SplitN c ''='' 2 = [key, v] \<and> Atoi v = Inr (f w1))" .
    from step [OF Inr]
    have first: "f w2 = f w \<or> (\<exists>v. SplitN c ''='' 2 = [key, v] \<and> Atoi v = Inr (f w2))" .
    from rest show ?thesis
    proof
      assume eq: "f w1 = f w2"
      from first show ?thesis
      proof
        assume "f w2 = f w"
        with eq show ?thesis by simp
      next
        assume "\<exists>v. SplitN c ''='' 2 = [key, v] \<and> Atoi v = Inr (f w2)"
        with eq show ?thesis by auto
      qed
    next
      assume "\<exists>c\<in>set cs. \<exists>v. SplitN c ''='' 2 = [key, v] \<and> Atoi v = Inr (f w1)"
      then show ?thesis by auto
    qed
  qed
qed

lemma BuildWhereClause_field:
  fixes f :: "WhereClause \<Rightarrow> int"
  assumes step: "\<And>w c w1. andCond_body w c = Inr w1 \<Longrightarrow>
      f w1 = f w \<or> (\<exists>v. SplitN c ''='' 2 = [key, v] \<and> Atoi v = Inr (f w1))"
    and init: "f (zeroWhereClause\<lparr>Aggregates := Some Map.empty\<rparr>) = 0"
    and run: "BuildWhereClause s = Inr w"
  shows "(f w \<noteq> 0 \<longrightarrow>
            (\<exists>c\<in>set (Split s ''&''). \<exists>v. SplitN c ''='' 2 = [key, v] \<and> Atoi v = Inr (f w))) \<and>
         - (2 ^ 63) \<le> f w \<and> f w < 2 ^ 63"
proof -
  from run have "andConditions_loop (zeroWhereClause\<lparr>Aggregates := Some Map.empty\<rparr>)
      (Split s ''&'') = Inr w"
    unfolding BuildWhereClause_def .
  from andConditions_loop_field [of f key, OF step this] init
  have alt: "f w = 0 \<or>
      (\<exists>c\<in>set (Split s ''&''). \<exists>v. SplitN c ''='' 2 = [key, v] \<and> Atoi v = Inr (f w))"
    by simp
  then have "- (2 ^ 63) \<le> f w \<and> f w < 2 ^ 63"
  proof
    assume "f w = 0"
    then show ?thesis by simp
  next
    assume "\<exists>c\<in>set (Split s ''&''). \<exists>v. SplitN c ''='' 2 = [key, v] \<and> Atoi v = Inr (f w)"
    then obtain v where "Atoi v = Inr (f w)" by auto
    then show ?thesis by (rule Atoi_range)
  qed
  with alt show ?thesis by auto
qed




lemma aggregate_clause:
  assumes "HasPrefix c ''agg__''" and "SplitN c ''='' 2 = [k, fs]" and "Aggregates w = Some m"
  shows "andCond_body w c =
           Inr (w\<lparr>Aggregates := Some (m(TrimPrefix k ''agg__'' \<mapsto> Split fs ''|''))\<rparr>)"
  using assms by (simp add: andCond_body_def)

lemma andConditions_loop_append:
  "andConditions_loop w (xs @ ys) =
     (case andConditions_loop w xs of Inl e \<Rightarrow> Inl e | Inr w1 \<Rightarrow> andConditions_loop w1 ys)"
  by (induction xs arbitrary: w) (simp_all split: sum.splits)

lemma andCond_body_entry_kept:
  assumes run: "andCond_body w c = Inr w1"
    and m: "Aggregates w = Some m" "m f = Some x"
    and other: "\<not> (HasPrefix c ''agg__'' \<and>
                  (\<exists>k v. SplitN c ''='' 2 = [k, v] \<and> TrimPrefix k ''agg__'' = f))"
  shows "\<exists>m1. Aggregates w1 = Some m1 \<and> m1 f = Some x"
proof (cases "HasPrefix c ''agg__'' \<and> length (SplitN c ''='' 2) = 2")
  case True
  then obtain k v where kv: "SplitN c ''='' 2 = [k, v]"
    by (auto simp: SplitN_2_length)
  with True other have ne: "TrimPrefix k ''agg__'' \<noteq> f" by auto
  from True kv m(1) have "andCond_body w c =
      Inr (w\<lparr>Aggregates := Some (m(TrimPrefix k ''agg__'' \<mapsto> Split v ''|''))\<rparr>)"
    by (simp add: aggregate_clause)
  with run have "Aggregates w1 = Some (m(TrimPrefix k ''agg__'' \<mapsto> Split v ''|''))" by auto
  with ne m(2) show ?thesis by simp
next
  case False
  from andCond_body_Aggregates_keep [OF run False] m show ?thesis by simp
qed

lemma andConditions_loop_entry_kept:
  "andConditions_loop w cs = Inr w1 \<Longrightarrow> Aggregates w = Some m \<Longrightarrow> m f = Some x \<Longrightarrow>
   \<forall>c\<in>set cs. \<not> (HasPrefix c ''agg__'' \<and>
                  (\<exists>k v. SplitN c ''='' 2 = [k, v] \<and> TrimPrefix k ''agg__'' = f)) \<Longrightarrow>
   \<exists>m1. Aggregates w1 = Some m1 \<and> m1 f = Some x"
proof (induction cs arbitrary: w m)
  case Nil
  then show ?case by simp
next
  case (Cons c cs)
  show ?case
  proof (cases "andCond_body w c")
    case (Inl e)
    with Cons.prems(1) show ?thesis by simp
  next
    case (Inr w2)
    with Cons.prems(1) have rest: "andConditions_loop w2 cs = Inr w1" by simp
    from Cons.prems(4) have "\<not> (HasPrefix c ''agg__'' \<and>
                  (\<exists>k v. SplitN c ''='' 2 = [k, v] \<and> TrimPrefix k ''agg__'' = f))" by simp
    from andCond_body_entry_kept [OF Inr Cons.prems(2,3) this]
    obtain m2 where m2: "Aggregates w2 = Some m2" "m2 f = Some x" by auto
    from Cons.prems(4) have "\<forall>c\<in>set cs. \<not> (HasPrefix c ''agg__'' \<and>
                  (\<exists>k v. SplitN c ''='' 2 = [k, v] \<and> TrimPrefix k ''agg__'' = f))" by simp
    from Cons.IH [OF rest m2 this] show ?thesis .
  qed
qed

lemma count_Join:
  "count_list sep x = 0 \<Longrightarrow> count_list (Join ps sep) x = sum_list (map (\<lambda>p. count_list p x) ps)"
  by (induction ps sep rule: Join.induct) simp_all

lemma sum_list_all_one:
  "\<forall>x\<in>set xs. f x = (1::nat) \<Longrightarrow> sum_list (map f xs) = length xs"
  by (induction xs) simp_all

lemma processCondition_counts:
  assumes "fst (processCondition p) \<noteq> []"
    and "\<forall>k v. SplitN p ''='' 2 = [k, v] \<longrightarrow> CHR ''?'' \<notin> set (hd (SplitN k ''__'' 2))"
  shows "count_list (fst (processCondition p)) CHR ''?'' = 1 \<and>
         length (fst (snd (processCondition p))) = 1"
proof -
  from SplitN_2_shape [of "''=''" p]
  consider k v where "SplitN p ''='' 2 = [k, v]" | "SplitN p ''='' 2 = [p]" by auto
  then show ?thesis
  proof cases
    case 1
    with assms(2) have "CHR ''?'' \<notin> set (hd (SplitN k ''__'' 2))" by simp
    then have "count_list (hd (SplitN k ''__'' 2)) CHR ''?'' = 0" by (simp add: count_list_0_iff)
    with 1 show ?thesis by (simp add: processCondition_def Let_def)
  next
    case 2
    with assms(1) show ?thesis by (simp add: processCondition_def)
  qed
qed

lemma orGroup_placeholders:
  assumes inv: "count_list (Query w) CHR ''?'' = length (Args w)"
    and fields: "\<forall>p\<in>set (Split c ''|''). \<forall>k v. SplitN p ''='' 2 = [k, v] \<longrightarrow>
                   CHR ''?'' \<notin> set (hd (SplitN k ''__'' 2))"
    and run: "orGroup w c = Inr w1"
  shows "count_list (Query w1) CHR ''?'' = length (Args w1)"
proof -
  define conds where "conds = filter (\<lambda>p. fst (processCondition p) \<noteq> []) (Split c ''|'')"
  have each: "\<forall>p\<in>set conds. count_list (fst (processCondition p)) CHR ''?'' = 1 \<and>
      length (fst (snd (processCondition p))) = 1"
  proof
    fix p
    assume "p \<in> set conds"
    then have pin: "p \<in> set (Split c ''|'')" and ne: "fst (processCondition p) \<noteq> []"
      by (simp_all add: conds_def)
    from fields pin
    have "\<forall>k v. SplitN p ''='' 2 = [k, v] \<longrightarrow> CHR ''?'' \<notin> set (hd (SplitN k ''__'' 2))"
      by (rule bspec)
    from processCondition_counts [OF ne this]
    show "count_list (fst (processCondition p)) CHR ''?'' = 1 \<and>
      length (fst (snd (processCondition p))) = 1" .
  qed
  have q: "sum_list (map (\<lambda>p. count_list (fst (processCondition p)) CHR ''?'') conds) = length conds"
    using each by (intro sum_list_all_one) simp
  have a: "length (concat (map (\<lambda>p. fst (snd (processCondition p))) conds)) = length conds"
    using each by (simp add: length_concat comp_def sum_list_all_one)
  have j: "count_list (Join (map (\<lambda>p. fst (processCondition p)) conds) '' OR '') CHR ''?'' =
      length conds"
    using q by (simp add: count_Join comp_def)
  from run inv j a show ?thesis
    unfolding orGroup_closed Let_def conds_def [symmetric]
    by (auto split: if_splits)
qed


lemma andCond_body_placeholders:
  assumes inv: "count_list (Query w) CHR ''?'' = length (Args w)"
    and fields: "\<forall>p\<in>set (Split c ''|''). \<forall>k v. SplitN p ''='' 2 = [k, v] \<longrightarrow>
                   CHR ''?'' \<notin> set (hd (SplitN k ''__'' 2))"
    and run: "andCond_body w c = Inr w1"
  shows "count_list (Query w1) CHR ''?'' = length (Args w1)"
proof (cases "andCond_body w c = orGroup w c")
  case True
  with run have "orGroup w c = Inr w1" by simp
  with inv fields show ?thesis by (rule orGroup_placeholders)
next
  case False
  from SplitN_2_shape [of "''=''" c]
  consider k v where "SplitN c ''='' 2 = [k, v]" | "SplitN c ''='' 2 = [c]" by auto
  then have "Query w1 = Query w \<and> Args w1 = Args w"
  proof cases
    case 1
    with run False show ?thesis
      by (auto simp: andCond_body_def setPaginationField_def foldl_Preload Let_def
          split: if_splits sum.splits option.splits)
  next
    case 2
    with run False show ?thesis
      by (auto simp: andCond_body_def foldl_Preload Let_def split: if_splits option.splits)
  qed
  with inv show ?thesis by simp
qed

lemma directive_keeps_Query_Args:
  assumes directive: "\<not> (c \<noteq> [] \<and> \<not> (HasPrefix c ''agg__'' \<and> length (SplitN c ''='' 2) = 2) \<and>
      \<not> HasPrefix c ''useData'' \<and> \<not> HasPrefix c ''useCache'' \<and> \<not> HasPrefix c ''with_'' \<and>
      \<not> (\<exists>k v. SplitN c ''='' 2 = [k, v] \<and>
            (k = ''orderByASC'' \<or> k = ''orderByDESC'' \<or> k = ''limit'' \<or> k = ''offset'' \<or>
             k = ''page'' \<or> k = ''pageSize'')))"
    and run: "andCond_body w c = Inr w1"
  shows "Query w1 = Query w \<and> Args w1 = Args w"
proof -
  from SplitN_2_shape [of "''=''" c]
  consider k v where "SplitN c ''='' 2 = [k, v]" | "SplitN c ''='' 2 = [c]" by auto
  then show ?thesis
  proof cases
    case 1
    with run directive show ?thesis
      by (auto simp: andCond_body_def setPaginationField_def foldl_Preload Let_def
          split: if_splits sum.splits option.splits)
  next
    case 2
    with run directive show ?thesis
      by (auto simp: andCond_body_def foldl_Preload Let_def split: if_splits option.splits)
  qed
qed

lemma andCond_body_placeholders_guarded:
  assumes inv: "count_list (Query w) CHR ''?'' = length (Args w)"
    and fields: "c \<noteq> [] \<and> \<not> (HasPrefix c ''agg__'' \<and> length (SplitN c ''='' 2) = 2) \<and>
      \<not> HasPrefix c ''useData'' \<and> \<not> HasPrefix c ''useCache'' \<and> \<not> HasPrefix c ''with_'' \<and>
      \<not> (\<exists>k v. SplitN c ''='' 2 = [k, v] \<and>
            (k = ''orderByASC'' \<or> k = ''orderByDESC'' \<or> k = ''limit'' \<or> k = ''offset'' \<or>
             k = ''page'' \<or> k = ''pageSize'')) \<longrightarrow>
      (\<forall>p\<in>set (Split c ''|''). \<forall>k v. SplitN p ''='' 2 = [k, v] \<longrightarrow>
         CHR ''?'' \<notin> set (hd (SplitN k ''__'' 2)))"
    and run: "andCond_body w c = Inr w1"
  shows "count_list (Query w1) CHR ''?'' = length (Args w1)"
proof (cases "c \<noteq> [] \<and> \<not> (HasPrefix c ''agg__'' \<and> length (SplitN c ''='' 2) = 2) \<and>
      \<not> HasPrefix c ''useData'' \<and> \<not> HasPrefix c ''useCache'' \<and> \<not> HasPrefix c ''with_'' \<and>
      \<not> (\<exists>k v. SplitN c ''='' 2 = [k, v] \<and>
            (k = ''orderByASC'' \<or> k = ''orderByDESC'' \<or> k = ''limit'' \<or> k = ''offset'' \<or>
             k = ''page'' \<or> k = ''pageSize''))")
  case True
  with fields have "\<forall>p\<in>set (Split c ''|''). \<forall>k v. SplitN p ''='' 2 = [k, v] \<longrightarrow>
         CHR ''?'' \<notin> set (hd (SplitN k ''__'' 2))" by (rule mp)
  with inv show ?thesis using run by (rule andCond_body_placeholders)
next
  case False
  from directive_keeps_Query_Args [OF False run] inv show ?thesis by simp
qed

lemma andConditions_loop_placeholders_guarded:
  "andConditions_loop w cs = Inr w1 \<Longrightarrow>
   count_list (Query w) CHR ''?'' = length (Args w) \<Longrightarrow>
   \<forall>c\<in>set cs.
      c \<noteq> [] \<and> \<not> (HasPrefix c ''agg__'' \<and> length (SplitN c ''='' 2) = 2) \<and>
      \<not> HasPrefix c ''useData'' \<and> \<not> HasPrefix c ''useCache'' \<and> \<not> HasPrefix c ''with_'' \<and>
      \<not> (\<exists>k v. SplitN c ''='' 2 = [k, v] \<and>
            (k = ''orderByASC'' \<or> k = ''orderByDESC'' \<or> k = ''limit'' \<or> k = ''offset'' \<or>
             k = ''page'' \<or> k = ''pageSize'')) \<longrightarrow>
      (\<forall>p\<in>set (Split c ''|''). \<forall>k v. SplitN p ''='' 2 = [k, v] \<longrightarrow>
         CHR ''?'' \<notin> set (hd (SplitN k ''__'' 2))) \<Longrightarrow>
   count_list (Query w1) CHR ''?'' = length (Args w1)"
proof (induction cs arbitrary: w)
  case Nil
  then show ?case by simp
next
  case (Cons c cs)
  show ?case
  proof (cases "andCond_body w c")
    case (Inl e)
    with Cons.prems(1) show ?thesis by simp
  next
    case (Inr w2)
    with Cons.prems(1) have rest: "andConditions_loop w2 cs = Inr w1" by simp
    have "c \<in> set (c # cs)" by simp
    with Cons.prems(3)
    have here: "c \<noteq> [] \<and> \<not> (HasPrefix c ''agg__'' \<and> length (SplitN c ''='' 2) = 2) \<and>
      \<not> HasPrefix c ''useData'' \<and> \<not> HasPrefix c ''useCache'' \<and> \<not> HasPrefix c ''with_'' \<and>
      \<not> (\<exists>k v. SplitN c ''='' 2 = [k, v] \<and>
            (k = ''orderByASC'' \<or> k = ''orderByDESC'' \<or> k = ''limit'' \<or> k = ''offset'' \<or>
             k = ''page'' \<or> k = ''pageSize'')) \<longrightarrow>
      (\<forall>p\<in>set (Split c ''|''). \<forall>k v. SplitN p ''='' 2 = [k, v] \<longrightarrow>
         CHR ''?'' \<notin> set (hd (SplitN k ''__'' 2)))"
      by (rule bspec)
    from Cons.prems(3)
    have later: "\<forall>c\<in>set cs.
      c \<noteq> [] \<and> \<not> (HasPrefix c ''agg__'' \<and> length (SplitN c ''='' 2) = 2) \<and>
      \<not> HasPrefix c ''useData'' \<and> \<not> HasPrefix c ''useCache'' \<and> \<not> HasPrefix c ''with_'' \<and>
      \<not> (\<exists>k v. SplitN c ''='' 2 = [k, v] \<and>
            (k = ''orderByASC'' \<or> k = ''orderByDESC'' \<or> k = ''limit'' \<or> k = ''offset'' \<or>
             k = ''page'' \<or> k = ''pageSize'')) \<longrightarrow>
      (\<forall>p\<in>set (Split c ''|''). \<forall>k v. SplitN p ''='' 2 = [k, v] \<longrightarrow>
         CHR ''?'' \<notin> set (hd (SplitN k ''__'' 2)))"
      by (simp only: set_simps ball_simps) blast
    from Cons.prems(2) here Inr have "count_list (Query w2) CHR ''?'' = length (Args w2)"
      by (rule andCond_body_placeholders_guarded)
    with rest show ?thesis using later by (rule Cons.IH)
  qed
qed

text \<open>The names under which the concrete runs below unfold the compiler.\<close>

lemmas compile_defs =
  BuildWhereClause_def andCond_body_def orGroup_def processCondition_def
  setPaginationField_def Split_def SplitN_def Count.simps HasPrefix_def TrimPrefix_def
  zeroWhereClause_def Atoi_def ParseInt_def ParseUint_def digit_def maxUint64_def

section \<open>The claims\<close>

subsection \<open>C1: the preload clause\<close>

text \<open>
  A clause that starts with \<open>with_\<close> (and is no aggregate or ignored clause) loses that
  prefix once, and the pieces of the remainder between \<open>|\<close> are appended to \<open>Preload\<close>
  in order.
\<close>

lemma preload_clause:
  assumes "HasPrefix c ''with_''"
  shows "andCond_body w c =
           Inr (w\<lparr>Preload := Preload w @ Split (TrimPrefix c ''with_'') ''|''\<rparr>)"
proof -
  from assms have "take (length ''with_'') c = ''with_''" by (simp add: HasPrefix_def)
  then have "c = ''with_'' @ drop (length ''with_'') c" by (metis append_take_drop_id)
  then obtain r where r: "c = ''with_'' @ r" ..
  then have "\<not> HasPrefix c ''agg__''" "c \<noteq> []" "\<not> HasPrefix c ''useData''"
    "\<not> HasPrefix c ''useCache''" by (simp_all add: HasPrefix_def)
  with assms show ?thesis
    by (simp add: andCond_body_def foldl_Preload)
qed

text \<open>
  C1. For the input \<open>with_team|with_friends\<close> the claim expects the preload list
  \<open>team, friends\<close> and an empty predicate. The compiler removes \<open>with_\<close> from the front of
  the clause only, so the second name keeps its prefix: the preload list is
  \<open>team, with_friends\<close>; the predicate is empty and nothing else is set.
\<close>

theorem C1_preload_keeps_second_prefix:
  "BuildWhereClause ''with_team|with_friends'' =
     Inr (zeroWhereClause\<lparr>Preload := [''team'', ''with_friends''], Aggregates := Some Map.empty\<rparr>)"
  by (simp add: compile_defs)

subsection \<open>C2: placeholders and arguments\<close>

text \<open>
  C2, as the code has it. When compilation succeeds and no condition has a \<open>?\<close> in its
  field name, the number of \<open>?\<close> in \<open>Query\<close> equals the length of \<open>Args\<close>. A condition
  is a piece between \<open>|\<close> that contains \<open>=\<close>, in a clause that is parsed as a group of
  alternatives (a non-empty clause that is no aggregate, ignored, preload, sort or
  pagination clause); its field name is the text before the first \<open>__\<close> of the text before
  its first \<open>=\<close>. Values may contain \<open>?\<close>, and so may the other clauses: they never reach
  the predicate.
\<close>

theorem C2_placeholders_match_arguments:
  assumes "BuildWhereClause s = Inr w"
    and "\<forall>c\<in>set (Split s ''&'').
             c \<noteq> [] \<and> \<not> (HasPrefix c ''agg__'' \<and> length (SplitN c ''='' 2) = 2) \<and>
             \<not> HasPrefix c ''useData'' \<and> \<not> HasPrefix c ''useCache'' \<and> \<not> HasPrefix c ''with_'' \<and>
             \<not> (\<exists>k v. SplitN c ''='' 2 = [k, v] \<and>
                   (k = ''orderByASC'' \<or> k = ''orderByDESC'' \<or> k = ''limit'' \<or> k = ''offset'' \<or>
                    k = ''page'' \<or> k = ''pageSize'')) \<longrightarrow>
             (\<forall>p\<in>set (Split c ''|''). \<forall>k v. SplitN p ''='' 2 = [k, v] \<longrightarrow>
                CHR ''?'' \<notin> set (hd (SplitN k ''__'' 2)))"
  shows "count_list (Query w) CHR ''?'' = length (Args w)"
proof -
  from assms(1) have "andConditions_loop (zeroWhereClause\<lparr>Aggregates := Some Map.empty\<rparr>)
      (Split s ''&'') = Inr w"
    unfolding BuildWhereClause_def .
  moreover have "count_list (Query (zeroWhereClause\<lparr>Aggregates := Some Map.empty\<rparr>)) CHR ''?'' =
      length (Args (zeroWhereClause\<lparr>Aggregates := Some Map.empty\<rparr>))"
    by (simp add: zeroWhereClause_def)
  ultimately show ?thesis using assms(2) by (rule andConditions_loop_placeholders_guarded)
qed

theorem C2_placeholders_match_arguments_witness:
  "BuildWhereClause ''a=1|b__gt=x?y&with_a?=1&orderByASC=a|b?=c&limit=3'' =
     Inr (zeroWhereClause\<lparr>Query := ''(a = ? OR b > ?)'',
                         Args := [IString ''1'', IString ''x?y''], Preload := [''a?=1''],
                         Limit := 3, OrderByASC := ''a|b?=c'',
                         Aggregates := Some Map.empty\<rparr>) \<and>
   count_list (Query (zeroWhereClause\<lparr>Query := ''(a = ? OR b > ?)'',
                         Args := [IString ''1'', IString ''x?y''], Preload := [''a?=1''],
                         Limit := 3, OrderByASC := ''a|b?=c'',
                         Aggregates := Some Map.empty\<rparr>)) CHR ''?'' =
     length (Args (zeroWhereClause\<lparr>Query := ''(a = ? OR b > ?)'',
                         Args := [IString ''1'', IString ''x?y''], Preload := [''a?=1''],
                         Limit := 3, OrderByASC := ''a|b?=c'',
                         Aggregates := Some Map.empty\<rparr>))"
proof -
  have run: "BuildWhereClause ''a=1|b__gt=x?y&with_a?=1&orderByASC=a|b?=c&limit=3'' =
     Inr (zeroWhereClause\<lparr>Query := ''(a = ? OR b > ?)'',
                         Args := [IString ''1'', IString ''x?y''], Preload := [''a?=1''],
                         Limit := 3, OrderByASC := ''a|b?=c'',
                         Aggregates := Some Map.empty\<rparr>)"
    by (simp add: compile_defs)
  have fields: "\<forall>c\<in>set (Split ''a=1|b__gt=x?y&with_a?=1&orderByASC=a|b?=c&limit=3'' ''&'').
             c \<noteq> [] \<and> \<not> (HasPrefix c ''agg__'' \<and> length (SplitN c ''='' 2) = 2) \<and>
             \<not> HasPrefix c ''useData'' \<and> \<not> HasPrefix c ''useCache'' \<and> \<not> HasPrefix c ''with_'' \<and>
             \<not> (\<exists>k v. SplitN c ''='' 2 = [k, v] \<and>
                   (k = ''orderByASC'' \<or> k = ''orderByDESC'' \<or> k = ''limit'' \<or> k = ''offset'' \<or>
                    k = ''page'' \<or> k = ''pageSize'')) \<longrightarrow>
             (\<forall>p\<in>set (Split c ''|''). \<forall>k v. SplitN p ''='' 2 = [k, v] \<longrightarrow>
                CHR ''?'' \<notin> set (hd (SplitN k ''__'' 2)))"
    by (simp add: compile_defs)
  from run C2_placeholders_match_arguments [OF run fields]
  show ?thesis by (rule conjI)
qed

text \<open>
  The claim for every successful compilation fails: the field name is copied into the
  predicate as it is, so \<open>a?=1\<close> compiles to the predicate \<open>(a? = ?)\<close>, which has two
  \<open>?\<close>, with the single argument \<open>1\<close>.
\<close>

theorem C2_question_mark_in_field_counterexample:
  "BuildWhereClause ''a?=1'' =
     Inr (zeroWhereClause\<lparr>Query := ''(a? = ?)'', Args := [IString ''1''],
            Aggregates := Some Map.empty\<rparr>) \<and>
   count_list ''(a? = ?)'' CHR ''?'' = 2 \<and> length [IString ''1''] = 1"
  by (simp add: compile_defs)

subsection \<open>C3: when compilation fails\<close>

text \<open>
  C3. \<open>BuildWhereClause\<close> returns an error if and only if some clause between \<open>&\<close> splits
  at its first \<open>=\<close> into one of the keys \<open>limit\<close>, \<open>offset\<close>, \<open>page\<close>, \<open>pageSize\<close> and a
  value that \<open>Atoi\<close> rejects (a value that is no optionally signed run of decimal digits,
  or one outside the range of \<open>int\<close>). No other input fails: the assignment to
  \<open>Aggregates\<close> never meets a nil map, and \<open>processCondition\<close> never reports an error.
  In particular \<open>limit=abc\<close> fails with the syntax error of \<open>Atoi\<close>.
\<close>

theorem C3_error_iff_bad_pagination_value:
  "((\<exists>e. BuildWhereClause s = Inl e) \<longleftrightarrow>
      (\<exists>c\<in>set (Split s ''&''). \<exists>k v. SplitN c ''='' 2 = [k, v] \<and>
         (k = ''limit'' \<or> k = ''offset'' \<or> k = ''page'' \<or> k = ''pageSize'') \<and>
         (\<exists>e. Atoi v = Inl e))) \<and>
   BuildWhereClause s \<noteq> Inl NilMapAssignment \<and>
   BuildWhereClause ''limit=abc'' = Inl ErrSyntax"
proof -
  note L = andConditions_loop_error_iff [OF initial_Aggregates, of "Split s ''&''"]
  have "(\<exists>e. BuildWhereClause s = Inl e) \<longleftrightarrow>
      (\<exists>c\<in>set (Split s ''&''). \<exists>k v. SplitN c ''='' 2 = [k, v] \<and>
         (k = ''limit'' \<or> k = ''offset'' \<or> k = ''page'' \<or> k = ''pageSize'') \<and>
         (\<exists>e. Atoi v = Inl e))"
  proof
    assume "\<exists>e. BuildWhereClause s = Inl e"
    then obtain e where "andConditions_loop (zeroWhereClause\<lparr>Aggregates := Some Map.empty\<rparr>)
        (Split s ''&'') = Inl e"
      unfolding BuildWhereClause_def ..
    with L(1) [of e] have "\<exists>c\<in>set (Split s ''&''). \<exists>k v. SplitN c ''='' 2 = [k, v] \<and>
         (k = ''limit'' \<or> k = ''offset'' \<or> k = ''page'' \<or> k = ''pageSize'') \<and>
         Atoi v = Inl e" by (rule mp)
    then show "\<exists>c\<in>set (Split s ''&''). \<exists>k v. SplitN c ''='' 2 = [k, v] \<and>
         (k = ''limit'' \<or> k = ''offset'' \<or> k = ''page'' \<or> k = ''pageSize'') \<and>
         (\<exists>e. Atoi v = Inl e)" by auto
  next
    assume "\<exists>c\<in>set (Split s ''&''). \<exists>k v. SplitN c ''='' 2 = [k, v] \<and>
         (k = ''limit'' \<or> k = ''offset'' \<or> k = ''page'' \<or> k = ''pageSize'') \<and>
         (\<exists>e. Atoi v = Inl e)"
    with L(2) show "\<exists>e. BuildWhereClause s = Inl e"
      unfolding BuildWhereClause_def by (rule mp)
  qed
  moreover have "BuildWhereClause s \<noteq> Inl NilMapAssignment"
  proof
    assume "BuildWhereClause s = Inl NilMapAssignment"
    then have "andConditions_loop (zeroWhereClause\<lparr>Aggregates := Some Map.empty\<rparr>)
        (Split s ''&'') = Inl NilMapAssignment"
      unfolding BuildWhereClause_def .
    with L(1) [of NilMapAssignment]
    have "\<exists>c\<in>set (Split s ''&''). \<exists>k v. SplitN c ''='' 2 = [k, v] \<and>
         (k = ''limit'' \<or> k = ''offset'' \<or> k = ''page'' \<or> k = ''pageSize'') \<and>
         Atoi v = Inl NilMapAssignment" by (rule mp)
    then show False by (auto simp: Atoi_no_panic)
  qed
  moreover have "BuildWhereClause ''limit=abc'' = Inl ErrSyntax"
    by (simp add: compile_defs)
  ultimately show ?thesis by (intro conjI)
qed


theorem C3_error_iff_bad_pagination_value_witness:
  "(\<exists>c\<in>set (Split ''garbage&limit=abc'' ''&''). \<exists>k v. SplitN c ''='' 2 = [k, v] \<and>
         (k = ''limit'' \<or> k = ''offset'' \<or> k = ''page'' \<or> k = ''pageSize'') \<and>
         (\<exists>e. Atoi v = Inl e)) \<and>
   (\<exists>e. BuildWhereClause ''garbage&limit=abc'' = Inl e)"
proof -
  have bad: "\<exists>c\<in>set (Split ''garbage&limit=abc'' ''&''). \<exists>k v. SplitN c ''='' 2 = [k, v] \<and>
         (k = ''limit'' \<or> k = ''offset'' \<or> k = ''page'' \<or> k = ''pageSize'') \<and>
         (\<exists>e. Atoi v = Inl e)"
    by (simp add: compile_defs)
  from C3_error_iff_bad_pagination_value [of "''garbage&limit=abc''"]
  have "(\<exists>e. BuildWhereClause ''garbage&limit=abc'' = Inl e) \<longleftrightarrow>
      (\<exists>c\<in>set (Split ''garbage&limit=abc'' ''&''). \<exists>k v. SplitN c ''='' 2 = [k, v] \<and>
         (k = ''limit'' \<or> k = ''offset'' \<or> k = ''page'' \<or> k = ''pageSize'') \<and>
         (\<exists>e. Atoi v = Inl e))"
    by (rule conjunct1)
  from this bad have "\<exists>e. BuildWhereClause ''garbage&limit=abc'' = Inl e" by (rule iffD2)
  with bad show ?thesis by (rule conjI)
qed

subsection \<open>C4: which clauses are sort and pagination directives\<close>

text \<open>
  C4, as the code has it. A clause is a sort or pagination directive exactly by the text
  before its first \<open>=\<close>: when that text is \<open>orderByASC\<close> or \<open>orderByDESC\<close> the whole rest of
  the clause, any \<open>|\<close> included, becomes the sort field; when it is \<open>limit\<close>, \<open>offset\<close>,
  \<open>page\<close> or \<open>pageSize\<close> the whole rest is handed to \<open>setPaginationField\<close>. A non-empty
  clause that is no aggregate, ignored or preload clause and whose text before the first
  \<open>=\<close> is none of the six keys (or that has no \<open>=\<close>) is parsed as a group of alternatives.
\<close>

theorem C4_directive_by_key_before_first_equals:
  "(SplitN c ''='' 2 = [''orderByASC'', v] \<longrightarrow> andCond_body w c = Inr (w\<lparr>OrderByASC := v\<rparr>)) \<and>
   (SplitN c ''='' 2 = [''orderByDESC'', v] \<longrightarrow> andCond_body w c = Inr (w\<lparr>OrderByDESC := v\<rparr>)) \<and>
   (SplitN c ''='' 2 = [k, v] \<and>
      (k = ''limit'' \<or> k = ''offset'' \<or> k = ''page'' \<or> k = ''pageSize'') \<longrightarrow>
      andCond_body w c = setPaginationField w k v) \<and>
   (c \<noteq> [] \<and> \<not> (HasPrefix c ''agg__'' \<and> length (SplitN c ''='' 2) = 2) \<and>
      \<not> HasPrefix c ''useData'' \<and> \<not> HasPrefix c ''useCache'' \<and> \<not> HasPrefix c ''with_'' \<and>
      \<not> (\<exists>k v. SplitN c ''='' 2 = [k, v] \<and>
            (k = ''orderByASC'' \<or> k = ''orderByDESC'' \<or> k = ''limit'' \<or> k = ''offset'' \<or>
             k = ''page'' \<or> k = ''pageSize'')) \<longrightarrow>
      andCond_body w c = orGroup w c)"
proof (intro conjI impI)
  assume s: "SplitN c ''='' 2 = [''orderByASC'', v]"
  from key_clause_prefixes [OF s] s show "andCond_body w c = Inr (w\<lparr>OrderByASC := v\<rparr>)"
    by (simp add: andCond_body_def)
next
  assume s: "SplitN c ''='' 2 = [''orderByDESC'', v]"
  from key_clause_prefixes [OF s] s show "andCond_body w c = Inr (w\<lparr>OrderByDESC := v\<rparr>)"
    by (simp add: andCond_body_def)
next
  assume a: "SplitN c ''='' 2 = [k, v] \<and>
      (k = ''limit'' \<or> k = ''offset'' \<or> k = ''page'' \<or> k = ''pageSize'')"
  then have s: "SplitN c ''='' 2 = [k, v]"
    and k: "k = ''limit'' \<or> k = ''offset'' \<or> k = ''page'' \<or> k = ''pageSize''" by simp_all
  from k have "k = ''orderByASC'' \<or> k = ''orderByDESC'' \<or> k = ''limit'' \<or> k = ''offset'' \<or>
      k = ''page'' \<or> k = ''pageSize''" by simp
  from key_clause_prefixes [OF s this] s k show "andCond_body w c = setPaginationField w k v"
    by (auto simp: andCond_body_def)
next
  assume a: "c \<noteq> [] \<and> \<not> (HasPrefix c ''agg__'' \<and> length (SplitN c ''='' 2) = 2) \<and>
      \<not> HasPrefix c ''useData'' \<and> \<not> HasPrefix c ''useCache'' \<and> \<not> HasPrefix c ''with_'' \<and>
      \<not> (\<exists>k v. SplitN c ''='' 2 = [k, v] \<and>
            (k = ''orderByASC'' \<or> k = ''orderByDESC'' \<or> k = ''limit'' \<or> k = ''offset'' \<or>
             k = ''page'' \<or> k = ''pageSize''))"
  from SplitN_2_shape [of "''=''" c]
  consider k v where "SplitN c ''='' 2 = [k, v]" | "SplitN c ''='' 2 = [c]" by auto
  then show "andCond_body w c = orGroup w c"
  proof cases
    case 1
    with a show ?thesis by (auto simp: andCond_body_def)
  next
    case 2
    with a show ?thesis by (auto simp: andCond_body_def)
  qed
qed

theorem C4_directive_by_key_before_first_equals_witness:
  "SplitN ''orderByASC=name|x=1'' ''='' 2 = [''orderByASC'', ''name|x=1''] \<and>
   andCond_body zeroWhereClause ''orderByASC=name|x=1'' =
     Inr (zeroWhereClause\<lparr>OrderByASC := ''name|x=1''\<rparr>) \<and>
   SplitN ''page=3'' ''='' 2 = [''page'', ''3''] \<and>
   andCond_body zeroWhereClause ''page=3'' = Inr (zeroWhereClause\<lparr>Page := 3\<rparr>)"
proof -
  have s1: "SplitN ''orderByASC=name|x=1'' ''='' 2 = [''orderByASC'', ''name|x=1'']"
    by (simp add: compile_defs)
  have s2: "SplitN ''page=3'' ''='' 2 = [''page'', ''3''] \<and>
      (''page'' = ''limit'' \<or> ''page'' = ''offset'' \<or> ''page'' = ''page'' \<or> ''page'' = ''pageSize'')"
    by (simp add: compile_defs)
  from C4_directive_by_key_before_first_equals
    [of "''orderByASC=name|x=1''" "''name|x=1''" zeroWhereClause]
  have "SplitN ''orderByASC=name|x=1'' ''='' 2 = [''orderByASC'', ''name|x=1''] \<longrightarrow>
      andCond_body zeroWhereClause ''orderByASC=name|x=1'' =
        Inr (zeroWhereClause\<lparr>OrderByASC := ''name|x=1''\<rparr>)"
    by (rule conjunct1)
  from this s1 have r1: "andCond_body zeroWhereClause ''orderByASC=name|x=1'' =
        Inr (zeroWhereClause\<lparr>OrderByASC := ''name|x=1''\<rparr>)" by (rule mp)
  from C4_directive_by_key_before_first_equals
    [of "''page=3''" "''3''" zeroWhereClause "''page''"]
  have "SplitN ''page=3'' ''='' 2 = [''page'', ''3''] \<and>
      (''page'' = ''limit'' \<or> ''page'' = ''offset'' \<or> ''page'' = ''page'' \<or> ''page'' = ''pageSize'') \<longrightarrow>
      andCond_body zeroWhereClause ''page=3'' = setPaginationField zeroWhereClause ''page'' ''3''"
    by (elim conjE)
  from this s2 have "andCond_body zeroWhereClause ''page=3'' =
      setPaginationField zeroWhereClause ''page'' ''3''" by (rule mp)
  also have "setPaginationField zeroWhereClause ''page'' ''3'' = Inr (zeroWhereClause\<lparr>Page := 3\<rparr>)"
    by (simp add: compile_defs)
  finally have r2: "andCond_body zeroWhereClause ''page=3'' = Inr (zeroWhereClause\<lparr>Page := 3\<rparr>)" .
  from s2 have "SplitN ''page=3'' ''='' 2 = [''page'', ''3'']" by (rule conjunct1)
  with s1 r1 r2 show ?thesis by (intro conjI)
qed

text \<open>
  The claim that a clause such as \<open>limit=1|a=2\<close> is parsed as a group of alternatives
  fails: the clause splits at its first \<open>=\<close> into the key \<open>limit\<close> and the value
  \<open>1|a=2\<close>, which \<open>Atoi\<close> rejects, so compilation fails, whereas the group of alternatives
  would have produced the predicate \<open>(limit = ? OR a = ?)\<close>.
\<close>

theorem C4_limit_with_alternative_counterexample:
  "SplitN ''limit=1|a=2'' ''='' 2 = [''limit'', ''1|a=2''] \<and>
   BuildWhereClause ''limit=1|a=2'' = Inl ErrSyntax \<and>
   andCond_body (zeroWhereClause\<lparr>Aggregates := Some Map.empty\<rparr>) ''limit=1|a=2'' = Inl ErrSyntax \<and>
   orGroup (zeroWhereClause\<lparr>Aggregates := Some Map.empty\<rparr>) ''limit=1|a=2'' =
     Inr (zeroWhereClause\<lparr>Query := ''(limit = ? OR a = ?)'',
            Args := [IString ''1'', IString ''2''], Aggregates := Some Map.empty\<rparr>)"
  by (simp add: compile_defs)

subsection \<open>C5: the pagination fields\<close>

text \<open>
  C5, as the code has it. In every descriptor that \<open>BuildWhereClause\<close> returns, each of
  \<open>Limit\<close>, \<open>Offset\<close>, \<open>Page\<close> and \<open>PageSize\<close> is a signed 64-bit integer, negative
  values included; a field that is not zero is the number that \<open>Atoi\<close> read from the value
  of a clause with the field's key, so a field that no clause sets is zero.
\<close>

theorem C5_pagination_fields_signed:
  assumes "BuildWhereClause s = Inr w"
  shows "((Limit w \<noteq> 0 \<longrightarrow>
            (\<exists>c\<in>set (Split s ''&''). \<exists>v. SplitN c ''='' 2 = [''limit'', v] \<and> Atoi v = Inr (Limit w))) \<and>
          - (2 ^ 63) \<le> Limit w \<and> Limit w < 2 ^ 63) \<and>
         ((Offset w \<noteq> 0 \<longrightarrow>
            (\<exists>c\<in>set (Split s ''&''). \<exists>v. SplitN c ''='' 2 = [''offset'', v] \<and> Atoi v = Inr (Offset w))) \<and>
          - (2 ^ 63) \<le> Offset w \<and> Offset w < 2 ^ 63) \<and>
         ((Page w \<noteq> 0 \<longrightarrow>
            (\<exists>c\<in>set (Split s ''&''). \<exists>v. SplitN c ''='' 2 = [''page'', v] \<and> Atoi v = Inr (Page w))) \<and>
          - (2 ^ 63) \<le> Page w \<and> Page w < 2 ^ 63) \<and>
         ((PageSize w \<noteq> 0 \<longrightarrow>
            (\<exists>c\<in>set (Split s ''&''). \<exists>v. SplitN c ''='' 2 = [''pageSize'', v] \<and> Atoi v = Inr (PageSize w))) \<and>
          - (2 ^ 63) \<le> PageSize w \<and> PageSize w < 2 ^ 63)"
proof (intro conjI)
  have z: "Limit (zeroWhereClause\<lparr>Aggregates := Some Map.empty\<rparr>) = 0"
    "Offset (zeroWhereClause\<lparr>Aggregates := Some Map.empty\<rparr>) = 0"
    "Page (zeroWhereClause\<lparr>Aggregates := Some Map.empty\<rparr>) = 0"
    "PageSize (zeroWhereClause\<lparr>Aggregates := Some Map.empty\<rparr>) = 0"
    by (simp_all add: zeroWhereClause_def)
  note l = BuildWhereClause_field [of Limit "''limit''", OF _ z(1) assms]
  note off = BuildWhereClause_field [of Offset "''offset''", OF _ z(2) assms]
  note pg = BuildWhereClause_field [of Page "''page''", OF _ z(3) assms]
  note ps = BuildWhereClause_field [of PageSize "''pageSize''", OF _ z(4) assms]
  show "Limit w \<noteq> 0 \<longrightarrow>
            (\<exists>c\<in>set (Split s ''&''). \<exists>v. SplitN c ''='' 2 = [''limit'', v] \<and> Atoi v = Inr (Limit w))"
    "- (2 ^ 63) \<le> Limit w" "Limit w < 2 ^ 63"
    using l andCond_body_pagination by blast+
  show "Offset w \<noteq> 0 \<longrightarrow>
            (\<exists>c\<in>set (Split s ''&''). \<exists>v. SplitN c ''='' 2 = [''offset'', v] \<and> Atoi v = Inr (Offset w))"
    "- (2 ^ 63) \<le> Offset w" "Offset w < 2 ^ 63"
    using off andCond_body_pagination by blast+
  show "Page w \<noteq> 0 \<longrightarrow>
            (\<exists>c\<in>set (Split s ''&''). \<exists>v. SplitN c ''='' 2 = [''page'', v] \<and> Atoi v = Inr (Page w))"
    "- (2 ^ 63) \<le> Page w" "Page w < 2 ^ 63"
    using pg andCond_body_pagination by blast+
  show "PageSize w \<noteq> 0 \<longrightarrow>
            (\<exists>c\<in>set (Split s ''&''). \<exists>v. SplitN c ''='' 2 = [''pageSize'', v] \<and> Atoi v = Inr (PageSize w))"
    "- (2 ^ 63) \<le> PageSize w" "PageSize w < 2 ^ 63"
    using ps andCond_body_pagination by blast+
qed


theorem C5_pagination_fields_signed_witness:
  "BuildWhereClause ''limit=-5&page=2'' =
     Inr (zeroWhereClause\<lparr>Limit := - 5, Page := 2, Aggregates := Some Map.empty\<rparr>) \<and>
   (\<exists>c\<in>set (Split ''limit=-5&page=2'' ''&''). \<exists>v. SplitN c ''='' 2 = [''limit'', v] \<and>
      Atoi v = Inr (- 5)) \<and>
   Offset (zeroWhereClause\<lparr>Limit := - 5, Page := 2, Aggregates := Some Map.empty\<rparr>) = 0"
proof -
  have run: "BuildWhereClause ''limit=-5&page=2'' =
     Inr (zeroWhereClause\<lparr>Limit := - 5, Page := 2, Aggregates := Some Map.empty\<rparr>)"
    by (simp add: compile_defs)
  have lim: "Limit (zeroWhereClause\<lparr>Limit := - 5, Page := 2, Aggregates := Some Map.empty\<rparr>) = - 5"
    by simp
  from C5_pagination_fields_signed [OF run]
  have "Limit (zeroWhereClause\<lparr>Limit := - 5, Page := 2, Aggregates := Some Map.empty\<rparr>) \<noteq> 0 \<longrightarrow>
      (\<exists>c\<in>set (Split ''limit=-5&page=2'' ''&''). \<exists>v. SplitN c ''='' 2 = [''limit'', v] \<and>
        Atoi v = Inr (Limit (zeroWhereClause\<lparr>Limit := - 5, Page := 2,
                                Aggregates := Some Map.empty\<rparr>)))"
    by (elim conjE)
  then have "\<exists>c\<in>set (Split ''limit=-5&page=2'' ''&''). \<exists>v. SplitN c ''='' 2 = [''limit'', v] \<and>
      Atoi v = Inr (- 5)"
    unfolding lim by simp
  moreover have "Offset (zeroWhereClause\<lparr>Limit := - 5, Page := 2, Aggregates := Some Map.empty\<rparr>) = 0"
    by (simp add: zeroWhereClause_def)
  ultimately show ?thesis using run by (intro conjI)
qed

text \<open>
  The claim that the four fields are never negative fails: \<open>Atoi\<close> accepts a sign, and
  \<open>limit=-5\<close> compiles to a descriptor whose \<open>Limit\<close> is \<open>-5\<close>.
\<close>

theorem C5_negative_limit_counterexample:
  "BuildWhereClause ''limit=-5'' =
     Inr (zeroWhereClause\<lparr>Limit := - 5, Aggregates := Some Map.empty\<rparr>) \<and>
   Limit (zeroWhereClause\<lparr>Limit := - 5, Aggregates := Some Map.empty\<rparr>) < 0"
  by (simp add: compile_defs)

subsection \<open>C6: the fragment of one condition\<close>

text \<open>
  C6. A condition that splits at its first \<open>=\<close> into \<open>key\<close> and \<open>value\<close>, whose key splits
  at its first \<open>__\<close> into \<open>field\<close> and a suffix, yields the fragment \<open>field op ?\<close> and the
  single argument \<open>value\<close>, as the raw string: \<open>op\<close> is \<open>>\<close> for \<open>gt\<close>, \<open>>=\<close> for \<open>gte\<close>,
  \<open><\<close> for \<open>lt\<close>, \<open><=\<close> for \<open>lte\<close>, \<open>!=\<close> for \<open>ne\<close>, \<open>NOT\<close> for \<open>not\<close>, and \<open>=\<close> for any
  other suffix and for a key without \<open>__\<close>. The input \<open>a=1&b__gt=2\<close> compiles to the
  predicate \<open>(a = ?) AND (b > ?)\<close> with the arguments \<open>1\<close> and \<open>2\<close>.
\<close>

theorem C6_condition_fragment:
  "(SplitN condition ''='' 2 = [key, val] \<longrightarrow>
      (SplitN key ''__'' 2 = [field, ''gt''] \<longrightarrow>
         processCondition condition = (field @ '' > ?'', [IString val], None)) \<and>
      (SplitN key ''__'' 2 = [field, ''gte''] \<longrightarrow>
         processCondition condition = (field @ '' >= ?'', [IString val], None)) \<and>
      (SplitN key ''__'' 2 = [field, ''lt''] \<longrightarrow>
         processCondition condition = (field @ '' < ?'', [IString val], None)) \<and>
      (SplitN key ''__'' 2 = [field, ''lte''] \<longrightarrow>
         processCondition condition = (field @ '' <= ?'', [IString val], None)) \<and>
      (SplitN key ''__'' 2 = [field, ''ne''] \<longrightarrow>
         processCondition condition = (field @ '' != ?'', [IString val], None)) \<and>
      (SplitN key ''__'' 2 = [field, ''not''] \<longrightarrow>
         processCondition condition = (field @ '' NOT ?'', [IString val], None)) \<and>
      (SplitN key ''__'' 2 = [field, suffix] \<and> suffix \<noteq> ''gt'' \<and> suffix \<noteq> ''gte'' \<and>
       suffix \<noteq> ''lt'' \<and> suffix \<noteq> ''lte'' \<and> suffix \<noteq> ''ne'' \<and> suffix \<noteq> ''not'' \<longrightarrow>
         processCondition condition = (field @ '' = ?'', [IString val], None)) \<and>
      (SplitN key ''__'' 2 = [field] \<longrightarrow>
         processCondition condition = (field @ '' = ?'', [IString val], None))) \<and>
   BuildWhereClause ''a=1&b__gt=2'' =
     Inr (zeroWhereClause\<lparr>Query := ''(a = ?) AND (b > ?)'',
            Args := [IString ''1'', IString ''2''], Aggregates := Some Map.empty\<rparr>)"
proof (intro conjI impI)
  show "BuildWhereClause ''a=1&b__gt=2'' =
     Inr (zeroWhereClause\<lparr>Query := ''(a = ?) AND (b > ?)'',
            Args := [IString ''1'', IString ''2''], Aggregates := Some Map.empty\<rparr>)"
    by (simp add: compile_defs)
qed (simp_all add: processCondition_def)

theorem C6_condition_fragment_witness:
  "SplitN ''b__gt=2'' ''='' 2 = [''b__gt'', ''2''] \<and>
   SplitN ''b__gt'' ''__'' 2 = [''b'', ''gt''] \<and>
   processCondition ''b__gt=2'' = (''b > ?'', [IString ''2''], None)"
proof -
  have s1: "SplitN ''b__gt=2'' ''='' 2 = [''b__gt'', ''2'']"
    by (simp add: compile_defs)
  have s2: "SplitN ''b__gt'' ''__'' 2 = [''b'', ''gt'']"
    by (simp add: compile_defs)
  from C6_condition_fragment [of "''b__gt=2''" "''b__gt''" "''2''" "''b''" "''x''"] s1 s2
  have "processCondition ''b__gt=2'' = (''b > ?'', [IString ''2''], None)" by simp
  with s1 s2 show ?thesis by (intro conjI)
qed

subsection \<open>C7: aggregate directives\<close>

text \<open>
  C7. A clause that starts with \<open>agg__\<close> and contains \<open>=\<close> stores, under the text before
  its first \<open>=\<close> without the prefix \<open>agg__\<close>, the pieces between \<open>|\<close> of the text after
  it, and changes nothing else: no predicate, no argument. A later clause with the same
  function name overwrites the entry: in the descriptor that \<open>BuildWhereClause\<close> returns,
  the entry of a function name is the field list of the last aggregate clause with that
  name. The input \<open>agg__sum=amount|tax\<close> compiles to the aggregates
  \<open>sum \<mapsto> amount, tax\<close>, with an empty predicate and no arguments.
\<close>

theorem C7_aggregate_last_wins:
  "(HasPrefix c ''agg__'' \<and> SplitN c ''='' 2 = [k, fs] \<and> Aggregates w = Some m \<longrightarrow>
      andCond_body w c =
        Inr (w\<lparr>Aggregates := Some (m(TrimPrefix k ''agg__'' \<mapsto> Split fs ''|''))\<rparr>)) \<and>
   (BuildWhereClause s = Inr d \<and> Split s ''&'' = before @ c # after \<and>
    HasPrefix c ''agg__'' \<and> SplitN c ''='' 2 = [k, fs] \<and>
    (\<forall>c'\<in>set after. \<not> (HasPrefix c' ''agg__'' \<and>
        (\<exists>k' v'. SplitN c' ''='' 2 = [k', v'] \<and>
                  TrimPrefix k' ''agg__'' = TrimPrefix k ''agg__''))) \<longrightarrow>
      (\<exists>m'. Aggregates d = Some m' \<and> m' (TrimPrefix k ''agg__'') = Some (Split fs ''|''))) \<and>
   BuildWhereClause ''agg__sum=amount|tax'' =
     Inr (zeroWhereClause\<lparr>Aggregates := Some [''sum'' \<mapsto> [''amount'', ''tax'']]\<rparr>)"
proof (intro conjI impI)
  assume "HasPrefix c ''agg__'' \<and> SplitN c ''='' 2 = [k, fs] \<and> Aggregates w = Some m"
  then show "andCond_body w c =
        Inr (w\<lparr>Aggregates := Some (m(TrimPrefix k ''agg__'' \<mapsto> Split fs ''|''))\<rparr>)"
    by (simp add: aggregate_clause)
next
  assume a: "BuildWhereClause s = Inr d \<and> Split s ''&'' = before @ c # after \<and>
    HasPrefix c ''agg__'' \<and> SplitN c ''='' 2 = [k, fs] \<and>
    (\<forall>c'\<in>set after. \<not> (HasPrefix c' ''agg__'' \<and>
        (\<exists>k' v'. SplitN c' ''='' 2 = [k', v'] \<and>
                  TrimPrefix k' ''agg__'' = TrimPrefix k ''agg__'')))"
  then have b: "BuildWhereClause s = Inr d" and sp: "Split s ''&'' = before @ c # after"
    by simp_all
  from b have run: "andConditions_loop (zeroWhereClause\<lparr>Aggregates := Some Map.empty\<rparr>)
      (before @ c # after) = Inr d"
    unfolding BuildWhereClause_def sp .
  from a have c: "HasPrefix c ''agg__''" "SplitN c ''='' 2 = [k, fs]" by simp_all
  from a have later: "\<forall>c'\<in>set after. \<not> (HasPrefix c' ''agg__'' \<and>
        (\<exists>k' v'. SplitN c' ''='' 2 = [k', v'] \<and>
                  TrimPrefix k' ''agg__'' = TrimPrefix k ''agg__''))" by simp
  from run obtain w1 where w1: "andConditions_loop (zeroWhereClause\<lparr>Aggregates := Some Map.empty\<rparr>)
      before = Inr w1" and rest: "andConditions_loop w1 (c # after) = Inr d"
    by (auto simp: andConditions_loop_append split: sum.splits)
  from andConditions_loop_Aggregates_Some [OF w1 initial_Aggregates]
  obtain m1 where m1: "Aggregates w1 = Some m1" by auto
  from aggregate_clause [OF c m1]
  have step: "andCond_body w1 c =
      Inr (w1\<lparr>Aggregates := Some (m1(TrimPrefix k ''agg__'' \<mapsto> Split fs ''|''))\<rparr>)" .
  with rest have tail: "andConditions_loop
      (w1\<lparr>Aggregates := Some (m1(TrimPrefix k ''agg__'' \<mapsto> Split fs ''|''))\<rparr>) after = Inr d"
    by simp
  have "Aggregates (w1\<lparr>Aggregates := Some (m1(TrimPrefix k ''agg__'' \<mapsto> Split fs ''|''))\<rparr>) =
      Some (m1(TrimPrefix k ''agg__'' \<mapsto> Split fs ''|''))" by simp
  moreover have "(m1(TrimPrefix k ''agg__'' \<mapsto> Split fs ''|'')) (TrimPrefix k ''agg__'') =
      Some (Split fs ''|'')" by simp
  ultimately show "\<exists>m'. Aggregates d = Some m' \<and> m' (TrimPrefix k ''agg__'') = Some (Split fs ''|'')"
    using later by (rule andConditions_loop_entry_kept [OF tail])
next
  show "BuildWhereClause ''agg__sum=amount|tax'' =
     Inr (zeroWhereClause\<lparr>Aggregates := Some [''sum'' \<mapsto> [''amount'', ''tax'']]\<rparr>)"
    by (simp add: compile_defs)
qed

theorem C7_aggregate_last_wins_witness:
  "BuildWhereClause ''agg__sum=a&agg__sum=b|c&x=1'' =
     Inr (zeroWhereClause\<lparr>Query := ''(x = ?)'', Args := [IString ''1''],
            Aggregates := Some [''sum'' \<mapsto> [''b'', ''c'']]\<rparr>) \<and>
   Split ''agg__sum=a&agg__sum=b|c&x=1'' ''&'' = [''agg__sum=a''] @ ''agg__sum=b|c'' # [''x=1''] \<and>
   (\<exists>m'. Aggregates (zeroWhereClause\<lparr>Query := ''(x = ?)'', Args := [IString ''1''],
            Aggregates := Some [''sum'' \<mapsto> [''b'', ''c'']]\<rparr>) = Some m' \<and>
         m' ''sum'' = Some [''b'', ''c''])"
proof -
  have run: "BuildWhereClause ''agg__sum=a&agg__sum=b|c&x=1'' =
     Inr (zeroWhereClause\<lparr>Query := ''(x = ?)'', Args := [IString ''1''],
            Aggregates := Some [''sum'' \<mapsto> [''b'', ''c'']]\<rparr>)"
    by (simp add: compile_defs)
  have sp: "Split ''agg__sum=a&agg__sum=b|c&x=1'' ''&'' =
      [''agg__sum=a''] @ ''agg__sum=b|c'' # [''x=1'']"
    by (simp add: compile_defs)
  have c: "HasPrefix ''agg__sum=b|c'' ''agg__''"
    "SplitN ''agg__sum=b|c'' ''='' 2 = [''agg__sum'', ''b|c'']"
    by (simp_all add: compile_defs)
  have later: "\<forall>c'\<in>set [''x=1'']. \<not> (HasPrefix c' ''agg__'' \<and>
        (\<exists>k' v'. SplitN c' ''='' 2 = [k', v'] \<and>
                  TrimPrefix k' ''agg__'' = TrimPrefix ''agg__sum'' ''agg__''))"
    by (simp add: compile_defs)
  have name: "TrimPrefix ''agg__sum'' ''agg__'' = ''sum''" "Split ''b|c'' ''|'' = [''b'', ''c'']"
    by (simp_all add: compile_defs)
  from C7_aggregate_last_wins [of "''agg__sum=b|c''" "''agg__sum''" "''b|c''" zeroWhereClause
      Map.empty "''agg__sum=a&agg__sum=b|c&x=1''"
      "zeroWhereClause\<lparr>Query := ''(x = ?)'', Args := [IString ''1''],
            Aggregates := Some [''sum'' \<mapsto> [''b'', ''c'']]\<rparr>" "[''agg__sum=a'']" "[''x=1'']"]
  have "BuildWhereClause ''agg__sum=a&agg__sum=b|c&x=1'' =
          Inr (zeroWhereClause\<lparr>Query := ''(x = ?)'', Args := [IString ''1''],
            Aggregates := Some [''sum'' \<mapsto> [''b'', ''c'']]\<rparr>) \<and>
        Split ''agg__sum=a&agg__sum=b|c&x=1'' ''&'' = [''agg__sum=a''] @ ''agg__sum=b|c'' # [''x=1''] \<and>
        HasPrefix ''agg__sum=b|c'' ''agg__'' \<and>
        SplitN ''agg__sum=b|c'' ''='' 2 = [''agg__sum'', ''b|c''] \<and>
        (\<forall>c'\<in>set [''x=1'']. \<not> (HasPrefix c' ''agg__'' \<and>
            (\<exists>k' v'. SplitN c' ''='' 2 = [k', v'] \<and>
                  TrimPrefix k' ''agg__'' = TrimPrefix ''agg__sum'' ''agg__''))) \<longrightarrow>
       (\<exists>m'. Aggregates (zeroWhereClause\<lparr>Query := ''(x = ?)'', Args := [IString ''1''],
            Aggregates := Some [''sum'' \<mapsto> [''b'', ''c'']]\<rparr>) = Some m' \<and>
          m' (TrimPrefix ''agg__sum'' ''agg__'') = Some (Split ''b|c'' ''|''))"
    by (elim conjE)
  moreover from run sp c later
  have "BuildWhereClause ''agg__sum=a&agg__sum=b|c&x=1'' =
          Inr (zeroWhereClause\<lparr>Query := ''(x = ?)'', Args := [IString ''1''],
            Aggregates := Some [''sum'' \<mapsto> [''b'', ''c'']]\<rparr>) \<and>
        Split ''agg__sum=a&agg__sum=b|c&x=1'' ''&'' = [''agg__sum=a''] @ ''agg__sum=b|c'' # [''x=1''] \<and>
        HasPrefix ''agg__sum=b|c'' ''agg__'' \<and>
        SplitN ''agg__sum=b|c'' ''='' 2 = [''agg__sum'', ''b|c''] \<and>
        (\<forall>c'\<in>set [''x=1'']. \<not> (HasPrefix c' ''agg__'' \<and>
            (\<exists>k' v'. SplitN c' ''='' 2 = [k', v'] \<and>
                  TrimPrefix k' ''agg__'' = TrimPrefix ''agg__sum'' ''agg__'')))"
    by (intro conjI)
  ultimately have "\<exists>m'. Aggregates (zeroWhereClause\<lparr>Query := ''(x = ?)'', Args := [IString ''1''],
            Aggregates := Some [''sum'' \<mapsto> [''b'', ''c'']]\<rparr>) = Some m' \<and>
          m' (TrimPrefix ''agg__sum'' ''agg__'') = Some (Split ''b|c'' ''|'')"
    by (rule mp)
  then have "\<exists>m'. Aggregates (zeroWhereClause\<lparr>Query := ''(x = ?)'', Args := [IString ''1''],
            Aggregates := Some [''sum'' \<mapsto> [''b'', ''c'']]\<rparr>) = Some m' \<and>
         m' ''sum'' = Some [''b'', ''c'']"
    unfolding name .
  with run sp show ?thesis by (intro conjI)
qed

subsection \<open>C8: fragments without an equals sign\<close>



subsection \<open>C9: connectors of the builder\<close>

text \<open>
  C9. On a descriptor whose \<open>Query\<close> is empty, \<open>And\<close> sets \<open>Query\<close> to \<open>" AND "\<close> followed
  by the given query and \<open>Or\<close> to \<open>" OR "\<close> followed by it, and both append the arguments;
  \<open>AddAnd\<close> and \<open>AddOr\<close> leave such a descriptor unchanged, since they append their
  connector exactly when \<open>Query\<close> is not empty.
\<close>

theorem C9_connector_on_empty_query:
  assumes "Query w = []"
  shows "Query (And w query args) = '' AND '' @ query \<and>
         Query (Or w query args) = '' OR '' @ query \<and>
         Args (And w query args) = Args w @ args \<and>
         Args (Or w query args) = Args w @ args \<and>
         AddAnd w = w \<and> AddOr w = w \<and>
         (Query (AddAnd v) \<noteq> Query v \<longleftrightarrow> Query v \<noteq> []) \<and>
         (Query (AddOr v) \<noteq> Query v \<longleftrightarrow> Query v \<noteq> []) \<and>
         Query (AddAnd v) = (if Query v \<noteq> [] then Query v @ '' AND '' else Query v) \<and>
         Query (AddOr v) = (if Query v \<noteq> [] then Query v @ '' OR '' else Query v)"
  using assms by (simp add: And_def Or_def AddAnd_def AddOr_def)

theorem C9_connector_on_empty_query_witness:
  "Query NewWhereClause = [] \<and>
   Query (And NewWhereClause ''a = ?'' [IString ''1'']) = '' AND a = ?'' \<and>
   Query (Or NewWhereClause ''a = ?'' [IString ''1'']) = '' OR a = ?'' \<and>
   AddAnd NewWhereClause = NewWhereClause \<and> AddOr NewWhereClause = NewWhereClause \<and>
   Query (AddAnd (Where NewWhereClause ''a = ?'' [IString ''1''])) = ''a = ? AND ''"
proof -
  have h: "Query NewWhereClause = []"
    by (simp add: NewWhereClause_def zeroWhereClause_def)
  from C9_connector_on_empty_query [OF h, of "''a = ?''" "[IString ''1'']"
      "Where NewWhereClause ''a = ?'' [IString ''1'']"]
  show ?thesis using h by (simp add: Where_def)
qed

subsection \<open>C10: the aggregates map is allocated\<close>

text \<open>
  C10. Every descriptor that \<open>BuildWhereClause\<close> returns has an allocated \<open>Aggregates\<close>
  map (not nil); the map is empty when no clause is an aggregate directive, that is when no
  clause starts with \<open>agg__\<close> and contains \<open>=\<close>. The descriptors of \<open>NewWhereClause\<close>
  and \<open>NewWhere\<close> carry the nil map.
\<close>

theorem C10_aggregates_allocated:
  "(BuildWhereClause s = Inr w \<longrightarrow>
      Aggregates w \<noteq> None \<and>
      ((\<forall>c\<in>set (Split s ''&''). \<not> (HasPrefix c ''agg__'' \<and> length (SplitN c ''='' 2) = 2)) \<longrightarrow>
         Aggregates w = Some Map.empty)) \<and>
   Aggregates NewWhereClause = None \<and>
   Aggregates (NewWhere query args limit offset) = None"
proof (intro conjI impI)
  assume b: "BuildWhereClause s = Inr w"
  then have run: "andConditions_loop (zeroWhereClause\<lparr>Aggregates := Some Map.empty\<rparr>)
      (Split s ''&'') = Inr w"
    unfolding BuildWhereClause_def .
  from run initial_Aggregates show "Aggregates w \<noteq> None"
    by (rule andConditions_loop_Aggregates_Some)
  assume "\<forall>c\<in>set (Split s ''&''). \<not> (HasPrefix c ''agg__'' \<and> length (SplitN c ''='' 2) = 2)"
  with run have "Aggregates w = Aggregates (zeroWhereClause\<lparr>Aggregates := Some Map.empty\<rparr>)"
    by (rule andConditions_loop_Aggregates_keep)
  then show "Aggregates w = Some Map.empty" by simp
next
  show "Aggregates NewWhereClause = None"
    by (simp add: NewWhereClause_def zeroWhereClause_def)
next
  show "Aggregates (NewWhere query args limit offset) = None"
    by (simp add: NewWhere_def zeroWhereClause_def)
qed


theorem C10_aggregates_allocated_witness:
  "BuildWhereClause ''a=1&agg__x'' =
     Inr (zeroWhereClause\<lparr>Query := ''(a = ?)'', Args := [IString ''1''],
            Aggregates := Some Map.empty\<rparr>) \<and>
   list_all (\<lambda>c. \<not> (HasPrefix c ''agg__'' \<and> length (SplitN c ''='' 2) = 2))
     (Split ''a=1&agg__x'' ''&'') \<and>
   Aggregates (zeroWhereClause\<lparr>Query := ''(a = ?)'', Args := [IString ''1''],
                 Aggregates := Some Map.empty\<rparr>) = Some Map.empty"
proof -
  have run: "BuildWhereClause ''a=1&agg__x'' =
     Inr (zeroWhereClause\<lparr>Query := ''(a = ?)'', Args := [IString ''1''],
            Aggregates := Some Map.empty\<rparr>)"
    by (simp add: compile_defs)
  have none: "\<forall>c\<in>set (Split ''a=1&agg__x'' ''&'').
      \<not> (HasPrefix c ''agg__'' \<and> length (SplitN c ''='' 2) = 2)"
    by (simp add: compile_defs)
  from C10_aggregates_allocated [of "''a=1&agg__x''"
      "zeroWhereClause\<lparr>Query := ''(a = ?)'', Args := [IString ''1''],
         Aggregates := Some Map.empty\<rparr>"]
  have "BuildWhereClause ''a=1&agg__x'' =
     Inr (zeroWhereClause\<lparr>Query := ''(a = ?)'', Args := [IString ''1''],
            Aggregates := Some Map.empty\<rparr>) \<longrightarrow>
     Aggregates (zeroWhereClause\<lparr>Query := ''(a = ?)'', Args := [IString ''1''],
                 Aggregates := Some Map.empty\<rparr>) \<noteq> None \<and>
     ((\<forall>c\<in>set (Split ''a=1&agg__x'' ''&'').
        \<not> (HasPrefix c ''agg__'' \<and> length (SplitN c ''='' 2) = 2)) \<longrightarrow>
      Aggregates (zeroWhereClause\<lparr>Query := ''(a = ?)'', Args := [IString ''1''],
                 Aggregates := Some Map.empty\<rparr>) = Some Map.empty)"
    by (rule conjunct1)
  from this run have "Aggregates (zeroWhereClause\<lparr>Query := ''(a = ?)'', Args := [IString ''1''],
                 Aggregates := Some Map.empty\<rparr>) \<noteq> None \<and>
     ((\<forall>c\<in>set (Split ''a=1&agg__x'' ''&'').
        \<not> (HasPrefix c ''agg__'' \<and> length (SplitN c ''='' 2) = 2)) \<longrightarrow>
      Aggregates (zeroWhereClause\<lparr>Query := ''(a = ?)'', Args := [IString ''1''],
                 Aggregates := Some Map.empty\<rparr>) = Some Map.empty)"
    by (rule mp)
  then have "(\<forall>c\<in>set (Split ''a=1&agg__x'' ''&'').
        \<not> (HasPrefix c ''agg__'' \<and> length (SplitN c ''='' 2) = 2)) \<longrightarrow>
      Aggregates (zeroWhereClause\<lparr>Query := ''(a = ?)'', Args := [IString ''1''],
                 Aggregates := Some Map.empty\<rparr>) = Some Map.empty"
    by (rule conjunct2)
  from this none have "Aggregates (zeroWhereClause\<lparr>Query := ''(a = ?)'', Args := [IString ''1''],
                 Aggregates := Some Map.empty\<rparr>) = Some Map.empty"
    by (rule mp)
  moreover from none
  have "list_all (\<lambda>c. \<not> (HasPrefix c ''agg__'' \<and> length (SplitN c ''='' 2) = 2))
     (Split ''a=1&agg__x'' ''&'')"
    by (simp only: list_all_iff)
  ultimately show ?thesis using run by (intro conjI)
qed

end
